theory Spec2Isabelle
  imports Main
begin

section \<open>The fixed pattern and Python's \<open>re.search\<close>\<close>

text \<open>
  Lines are strings over code points below 256. The pattern of \<open>MainWindow.__init__\<close> is

  \<^verbatim>\<open>T:\s*([\d.]+)\s*C\s*\|\s*H:\s*([\d.]+)\s*%\s*\|\s*Peso:\s*([-\d.]+)\s*\|\s*Aquecedor:\s*(ON|OFF)\<close>

  It is built from four kinds of items only: a literal text, a greedy \<open>\s*\<close>, a
  capturing group around a greedy \<open>[...]+\<close>, and a capturing group around an
  alternation of literals. Three character classes occur.
\<close>

datatype cls = Whitespace | DigitDot | MinusDigitDot

text \<open>
  \<open>\s\<close> in a \<open>str\<close> pattern is every character with \<open>str.isspace()\<close>: below 256 these
  are U+0009 to U+000D, U+001C to U+001F, the blank, U+0085 and U+00A0. \<open>\d\<close> below 256 is
  the ten ASCII digits.
\<close>

definition whitespace_chars :: string where
  "whitespace_chars =
     [CHR 0x09, CHR 0x0A, CHR 0x0B, CHR 0x0C, CHR 0x0D,
      CHR 0x1C, CHR 0x1D, CHR 0x1E, CHR 0x1F, CHR 0x20, CHR 0x85, CHR 0xA0]"

fun cls_chars :: "cls \<Rightarrow> string" where
  "cls_chars Whitespace = whitespace_chars"
| "cls_chars DigitDot = ''0123456789.''"
| "cls_chars MinusDigitDot = ''-0123456789.''"

definition in_cls :: "cls \<Rightarrow> char \<Rightarrow> bool" where
  "in_cls c ch = (ch \<in> set (cls_chars c))"

datatype item =
    Lit string
  | Star cls
  | GroupPlus cls
  | GroupAlt "string list"

definition regex_pattern :: "item list" where
  "regex_pattern =
     [Lit ''T:'', Star Whitespace, GroupPlus DigitDot, Star Whitespace, Lit ''C'',
      Star Whitespace, Lit ''|'', Star Whitespace,
      Lit ''H:'', Star Whitespace, GroupPlus DigitDot, Star Whitespace, Lit ''%'',
      Star Whitespace, Lit ''|'', Star Whitespace,
      Lit ''Peso:'', Star Whitespace, GroupPlus MinusDigitDot,
      Star Whitespace, Lit ''|'', Star Whitespace,
      Lit ''Aquecedor:'', Star Whitespace, GroupAlt [''ON'', ''OFF'']]"

text \<open>
  The matcher backtracks as Python's does: a greedy repetition first takes as many
  characters as it can and gives them back one at a time while the rest of the pattern
  fails; an alternation tries its branches from left to right. The result is the list of
  captured groups, group 1 first.
\<close>

fun first_some :: "('a \<Rightarrow> 'b option) \<Rightarrow> 'a list \<Rightarrow> 'b option" where
  "first_some f [] = None"
| "first_some f (x # xs) = (case f x of Some y \<Rightarrow> Some y | None \<Rightarrow> first_some f xs)"

definition starts_with :: "string \<Rightarrow> string \<Rightarrow> bool" where
  "starts_with l s = (take (length l) s = l)"

fun rx_match :: "item list \<Rightarrow> string \<Rightarrow> string list option" where
  "rx_match [] s = Some []"
| "rx_match (Lit l # r) s =
     (if starts_with l s then rx_match r (drop (length l) s) else None)"
| "rx_match (Star c # r) s =
     first_some (\<lambda>n. rx_match r (drop n s))
       (rev [0 ..< Suc (length (takeWhile (in_cls c) s))])"
| "rx_match (GroupPlus c # r) s =
     first_some (\<lambda>n. map_option (\<lambda>gs. take n s # gs) (rx_match r (drop n s)))
       (rev [1 ..< Suc (length (takeWhile (in_cls c) s))])"
| "rx_match (GroupAlt alts # r) s =
     first_some (\<lambda>a. if starts_with a s
                      then map_option (\<lambda>gs. a # gs) (rx_match r (drop (length a) s))
                      else None) alts"

text \<open>\<open>search\<close> tries every start position from the left, the end of the line included.\<close>

definition rx_search :: "item list \<Rightarrow> string \<Rightarrow> string list option" where
  "rx_search p s = first_some (\<lambda>i. rx_match p (drop i s)) [0 ..< Suc (length s)]"

section \<open>The serial worker\<close>

text \<open>
  A \<open>SerialWorker\<close> object has the four attributes \<open>__init__\<close> writes, and the state of
  the thread it inherits from \<open>QThread\<close>. \<open>serial_port\<close> is \<open>None\<close> or a \<open>Serial\<close> object,
  of which only \<open>is_open\<close> is read.
\<close>

datatype thread_status = NotStarted | Running | Finished

record worker =
  port_name :: string
  baud_rate :: nat
  is_running :: bool
  serial_port :: "bool option"
  thread :: thread_status

definition SerialWorker :: "string \<Rightarrow> worker" where
  "SerialWorker port =
     \<lparr>port_name = port, baud_rate = 115200, is_running = True, serial_port = None,
      thread = NotStarted\<rparr>"

text \<open>\<open>QThread.start\<close> begins the thread unless it already runs.\<close>

definition start :: "worker \<Rightarrow> worker" where
  "start w = (if thread w = Running then w else w\<lparr>thread := Running\<rparr>)"

text \<open>
  \<open>run\<close> is a function of what the device does: whether \<open>serial.Serial(...)\<close> opens the
  port or raises, and then one event for each turn of the loop: the other thread has
  cleared \<open>is_running\<close>, \<open>in_waiting\<close> is zero, a line is read (the event carries the text
  \<open>decode\<close> gives), or \<open>in_waiting\<close> or \<open>readline\<close> raises (with the text of the exception
  and whether the port object still reports \<open>is_open\<close>). A script that ends while the loop
  is still to go on gives \<open>None\<close>: the thread has not left \<open>run\<close>.
\<close>

datatype signal = DataReceived string | ErrorOccurred string

datatype open_result = Opened | OpenRaises string

datatype loop_event =
    StopRequested
  | NoData
  | LineRead string
  | InWaitingRaises string bool
  | ReadlineRaises string bool

definition strip :: "string \<Rightarrow> string" where
  "strip s = rev (dropWhile (in_cls Whitespace) (rev (dropWhile (in_cls Whitespace) s)))"

fun run_loop ::
  "worker \<Rightarrow> loop_event list \<Rightarrow> signal list \<Rightarrow> (worker \<times> signal list \<times> string option) option"
where
  "run_loop w [] out = (if is_running w then None else Some (w, out, None))"
| "run_loop w (e # es) out =
     (if \<not> is_running w then Some (w, out, None)
      else case e of
          StopRequested \<Rightarrow> run_loop (w\<lparr>is_running := False\<rparr>) es out
        | NoData \<Rightarrow> run_loop w es out
        | LineRead txt \<Rightarrow>
            (let line = strip txt
             in if line \<noteq> [] then run_loop w es (out @ [DataReceived line])
                else run_loop w es out)
        | InWaitingRaises msg still_open \<Rightarrow>
            Some (w\<lparr>serial_port := Some still_open\<rparr>, out, Some msg)
        | ReadlineRaises msg still_open \<Rightarrow>
            Some (w\<lparr>serial_port := Some still_open\<rparr>, out, Some msg))"

text \<open>
  The result of \<open>run\<close>: the object as \<open>run\<close> leaves it, the signals it emitted in order,
  and the exception its \<open>except\<close> clause caught, if any.
\<close>

record run_result =
  final :: worker
  emitted :: "signal list"
  caught :: "string option"

definition run :: "worker \<Rightarrow> open_result \<Rightarrow> loop_event list \<Rightarrow> run_result option" where
  "run w opn evs =
     (case (case opn of
              OpenRaises msg \<Rightarrow> Some (w, [], Some msg)
            | Opened \<Rightarrow> run_loop (w\<lparr>serial_port := Some True\<rparr>) evs [])
      of
        None \<Rightarrow> None
      | Some (w1, out, exc) \<Rightarrow>
          Some \<lparr>final = (if serial_port w1 = Some True
                          then w1\<lparr>serial_port := Some False\<rparr> else w1),
                emitted = (case exc of
                             Some msg \<Rightarrow> out @ [ErrorOccurred msg]
                           | None \<Rightarrow> out),
                caught = exc\<rparr>)"

text \<open>
  What the device does in the run of one thread: how the opening goes, and the events of
  the loop.
\<close>

record device =
  on_open :: open_result
  in_loop :: "loop_event list"

text \<open>
  \<open>QThread.wait\<close> returns once the thread has left \<open>run\<close>, and at once for a thread
  that is not running. The other thread sees nothing of what a started thread does to
  the object until it has waited for it: then the object is as \<open>run\<close> leaves it. When
  \<open>run\<close> never ends, \<open>wait\<close> does not return, which is \<open>None\<close>. \<open>stop\<close> clears the
  flag first and waits then.
\<close>

definition wait :: "worker \<Rightarrow> device \<Rightarrow> worker option" where
  "wait w dev =
     (if thread w = Running
      then map_option (\<lambda>r. (final r)\<lparr>thread := Finished\<rparr>) (run w (on_open dev) (in_loop dev))
      else Some w)"

definition stop :: "worker \<Rightarrow> device \<Rightarrow> worker option" where
  "stop w dev = wait (w\<lparr>is_running := False\<rparr>) dev"

section \<open>The main window\<close>

text \<open>
  The state of \<open>MainWindow\<close>: the \<open>SerialWorker\<close> objects created so far (\<open>self.worker\<close>
  refers to one of them by its index, or is \<open>None\<close>), the port selector with its items
  and current item, the two buttons, the text of the four cards, the style sheet of the
  heater card's frame, and the log view with whether it is scrolled to its end.
\<close>

record ui =
  workers :: "worker list"
  worker :: "nat option"
  combo_ports_items :: "string list"
  combo_ports_current :: "nat option"
  combo_ports_enabled :: bool
  btn_refresh_enabled :: bool
  btn_connect_checked :: bool
  btn_connect_text :: string
  btn_connect_style :: string
  lbl_temp :: string
  lbl_hum :: string
  lbl_weight :: string
  lbl_heater :: string
  lbl_heater_frame :: string
  log_view :: "string list"
  log_at_end :: bool

definition frame_style :: "string \<Rightarrow> string" where
  "frame_style color_hex =
     ''QFrame { background-color: '' @ color_hex @ ''; border-radius: 10px; }''"

definition refresh_ports :: "ui \<Rightarrow> string list \<Rightarrow> ui" where
  "refresh_ports st ports =
     st\<lparr>combo_ports_items := ports,
        combo_ports_current := (if ports = [] then None else Some 0)\<rparr>"

text \<open>\<open>__init__\<close> with \<open>setup_ui\<close>, for the ports the system lists at that moment.\<close>

definition MainWindow :: "string list \<Rightarrow> ui" where
  "MainWindow ports =
     refresh_ports
       \<lparr>workers = [], worker = None,
        combo_ports_items = [], combo_ports_current = None, combo_ports_enabled = True,
        btn_refresh_enabled = True,
        btn_connect_checked = False, btn_connect_text = ''Conectar'', btn_connect_style = [],
        lbl_temp = ''--- '' @ [CHR 0xB0] @ ''C'', lbl_hum = ''--- %'', lbl_weight = ''--- g'',
        lbl_heater = ''OFF'', lbl_heater_frame = frame_style ''#9E9E9E'',
        log_view = [], log_at_end = True\<rparr>
       ports"

definition currentText :: "ui \<Rightarrow> string" where
  "currentText st =
     (case combo_ports_current st of
        None \<Rightarrow> []
      | Some i \<Rightarrow> if i < length (combo_ports_items st) then combo_ports_items st ! i else [])"

definition log_message :: "ui \<Rightarrow> string \<Rightarrow> ui" where
  "log_message st msg = st\<lparr>log_view := log_view st @ [msg], log_at_end := True\<rparr>"

text \<open>
  The branch of \<open>toggle_connection\<close> that disconnects, statement by statement: the
  states the window goes through, the one before the first statement included, for what
  the device does in the run of the worker that is stopped. It is \<open>None\<close> when \<open>stop\<close>
  does not return.
\<close>

definition disconnect_path :: "ui \<Rightarrow> device \<Rightarrow> ui list option" where
  "disconnect_path st dev =
     (case (case worker st of
              None \<Rightarrow> Some [st]
            | Some r \<Rightarrow>
                (case stop (workers st ! r) dev of
                   None \<Rightarrow> None
                 | Some w \<Rightarrow>
                     (let s1 = st\<lparr>workers := (workers st)[r := w]\<rparr>;
                          s2 = s1\<lparr>worker := None\<rparr>
                      in Some [st, s1, s2])))
      of
        None \<Rightarrow> None
      | Some ss \<Rightarrow>
          (let s3 = (last ss)\<lparr>btn_connect_text := ''Conectar''\<rparr>;
               s4 = s3\<lparr>btn_connect_style := []\<rparr>;
               s5 = s4\<lparr>combo_ports_enabled := True\<rparr>;
               s6 = s5\<lparr>btn_refresh_enabled := True\<rparr>;
               s7 = log_message s6 ''Desconectado.''
           in Some (ss @ [s3, s4, s5, s6, s7])))"

text \<open>
  \<open>toggle_connection\<close>, for what the device does in the run of the worker it stops (of
  no use when it connects). \<open>None\<close>: it does not return.
\<close>

definition toggle_connection :: "ui \<Rightarrow> device \<Rightarrow> ui option" where
  "toggle_connection st dev =
     (if btn_connect_checked st then
        (let port = currentText st in
         if port = [] then
           Some ((log_message st ''Selecione uma porta serial!'')\<lparr>btn_connect_checked := False\<rparr>)
         else
           Some (log_message
             (st\<lparr>workers := workers st @ [start (SerialWorker port)],
                 worker := Some (length (workers st)),
                 btn_connect_text := ''Desconectar'',
                 btn_connect_style := ''background-color: #ffcccc; color: red;'',
                 combo_ports_enabled := False,
                 btn_refresh_enabled := False\<rparr>)
             (''Conectando a '' @ port @ ''...'')))
      else map_option last (disconnect_path st dev))"

text \<open>
  \<open>match.group(n)\<close> for \<open>n\<close> from 1 to 4; the pattern has four groups, so every match has
  them (\<open>regex_search_groups\<close> below).
\<close>

definition group :: "string list \<Rightarrow> nat \<Rightarrow> string" where
  "group gs n = gs ! (n - 1)"

definition process_data :: "ui \<Rightarrow> string \<Rightarrow> ui" where
  "process_data st line =
     (let st1 = log_message st line
      in case rx_search regex_pattern line of
           None \<Rightarrow> st1
         | Some gs \<Rightarrow>
             (let temp = group gs 1; hum = group gs 2; weight = group gs 3;
                  heater = group gs 4
              in st1\<lparr>lbl_temp := temp @ '' '' @ [CHR 0xB0] @ ''C'',
                     lbl_hum := hum @ '' %'',
                     lbl_weight := weight @ '' g'',
                     lbl_heater := heater,
                     lbl_heater_frame :=
                       (if heater = ''ON'' then frame_style ''#F44336''
                        else frame_style ''#9E9E9E'')\<rparr>))"

text \<open>
  \<open>QAbstractButton.click\<close>, and a click of the user alike: the checkable button changes
  its checked state and then \<open>clicked\<close> calls \<open>toggle_connection\<close>.
\<close>

definition btn_connect_click :: "ui \<Rightarrow> device \<Rightarrow> ui option" where
  "btn_connect_click st dev =
     toggle_connection (st\<lparr>btn_connect_checked := \<not> btn_connect_checked st\<rparr>) dev"

definition handle_error :: "ui \<Rightarrow> string \<Rightarrow> device \<Rightarrow> ui option" where
  "handle_error st error_msg dev =
     btn_connect_click (log_message st (''ERRO: '' @ error_msg)) dev"

section \<open>Notions the properties are stated with\<close>

text \<open>
  A matcher that never gives a character back: every repetition takes all the characters
  of its class. For a pattern in which what follows a repetition can never begin with a
  character of the repeated class (\<open>unambiguous\<close>), it finds what the backtracking
  matcher finds (\<open>rx_match_greedy\<close>), and it is the one the proofs compute with.
\<close>

fun greedy :: "item list \<Rightarrow> string \<Rightarrow> string list option" where
  "greedy [] s = Some []"
| "greedy (Lit l # r) s = (if starts_with l s then greedy r (drop (length l) s) else None)"
| "greedy (Star c # r) s = greedy r (dropWhile (in_cls c) s)"
| "greedy (GroupPlus c # r) s =
     (if takeWhile (in_cls c) s = [] then None
      else map_option (\<lambda>gs. takeWhile (in_cls c) s # gs) (greedy r (dropWhile (in_cls c) s)))"
| "greedy (GroupAlt alts # r) s =
     first_some (\<lambda>a. if starts_with a s
                      then map_option (\<lambda>gs. a # gs) (greedy r (drop (length a) s))
                      else None) alts"

fun excludes :: "cls \<Rightarrow> item list \<Rightarrow> bool" where
  "excludes c [] = False"
| "excludes c (Lit l # r) = (case l of [] \<Rightarrow> False | x # _ \<Rightarrow> \<not> in_cls c x)"
| "excludes c (Star c' # r) = (list_all (\<lambda>x. \<not> in_cls c x) (cls_chars c') \<and> excludes c r)"
| "excludes c (GroupPlus c' # r) = list_all (\<lambda>x. \<not> in_cls c x) (cls_chars c')"
| "excludes c (GroupAlt alts # r) =
     list_all (\<lambda>a. case a of [] \<Rightarrow> False | x # _ \<Rightarrow> \<not> in_cls c x) alts"

fun unambiguous :: "item list \<Rightarrow> bool" where
  "unambiguous [] = True"
| "unambiguous (Lit l # r) = unambiguous r"
| "unambiguous (Star c # r) = (excludes c r \<and> unambiguous r)"
| "unambiguous (GroupPlus c # r) = (excludes c r \<and> unambiguous r)"
| "unambiguous (GroupAlt alts # r) = unambiguous r"

text \<open>What the groups of a match of a pattern look like, item by item.\<close>

fun groups_ok :: "item list \<Rightarrow> string list \<Rightarrow> bool" where
  "groups_ok [] gs = (gs = [])"
| "groups_ok (Lit l # r) gs = groups_ok r gs"
| "groups_ok (Star c # r) gs = groups_ok r gs"
| "groups_ok (GroupPlus c # r) gs =
     (case gs of [] \<Rightarrow> False | g # gs' \<Rightarrow> g \<noteq> [] \<and> list_all (in_cls c) g \<and> groups_ok r gs')"
| "groups_ok (GroupAlt alts # r) gs =
     (case gs of [] \<Rightarrow> False | g # gs' \<Rightarrow> g \<in> set alts \<and> groups_ok r gs')"

text \<open>
  A reading as the firmware prints it, from the format in the comment above the pattern
  (\<open>T: %.1f C | H: %.1f %% | Peso: %.0f | Aquecedor: %s\<close>), for the four printed tokens.
\<close>

definition wire_line :: "string \<Rightarrow> string \<Rightarrow> string \<Rightarrow> string \<Rightarrow> string" where
  "wire_line t h w a =
     ''T: '' @ t @ '' C | H: '' @ h @ '' % | Peso: '' @ w @ '' | Aquecedor: '' @ a"

text \<open>What the dashboard shows: the text of the four cards and the colour of the heater card.\<close>

definition dashboard :: "ui \<Rightarrow> string \<times> string \<times> string \<times> string \<times> string" where
  "dashboard st = (lbl_temp st, lbl_hum st, lbl_weight st, lbl_heater st, lbl_heater_frame st)"

text \<open>The most recent line of a sequence on which the pattern is found.\<close>

definition last_match :: "string list \<Rightarrow> string option" where
  "last_match lines =
     (let ms = filter (\<lambda>l. rx_search regex_pattern l \<noteq> None) lines
      in if ms = [] then None else Some (last ms))"

text \<open>
  An event of the loop that neither raises nor asks to stop, and the line notifications
  the loop emits for a list of events: one for each line that is not empty once stripped.
\<close>

definition quiet :: "loop_event \<Rightarrow> bool" where
  "quiet e = (case e of NoData \<Rightarrow> True | LineRead _ \<Rightarrow> True | _ \<Rightarrow> False)"

definition data_signals :: "loop_event list \<Rightarrow> signal list" where
  "data_signals evs =
     concat (map (\<lambda>e. case e of
                          LineRead raw \<Rightarrow> if strip raw \<noteq> [] then [DataReceived (strip raw)] else []
                        | _ \<Rightarrow> []) evs)"

text \<open>The texts of the error notifications among the signals of a run, in order.\<close>

definition errors_emitted :: "signal list \<Rightarrow> string list" where
  "errors_emitted out = concat (map (\<lambda>s. case s of ErrorOccurred m \<Rightarrow> [m] | DataReceived _ \<Rightarrow> []) out)"

text \<open>
  \<open>self.worker\<close> refers to an object that exists; every other worker object has a
  thread that is not running; some thread is running.
\<close>

definition worker_valid :: "ui \<Rightarrow> bool" where
  "worker_valid st = (case worker st of None \<Rightarrow> True | Some r \<Rightarrow> r < length (workers st))"

definition others_stopped :: "ui \<Rightarrow> bool" where
  "others_stopped st =
     list_all (\<lambda>i. worker st = Some i \<or> thread (workers st ! i) \<noteq> Running)
       [0 ..< length (workers st)]"

definition background_activity :: "ui \<Rightarrow> bool" where
  "background_activity st = list_ex (\<lambda>w. thread w = Running) (workers st)"

text \<open>
  What holds of the window between any two events: the two properties above, and no
  worker is referred to while the connect button is unchecked.
\<close>

definition ui_inv :: "ui \<Rightarrow> bool" where
  "ui_inv st =
     (worker_valid st \<and> others_stopped st \<and> (btn_connect_checked st \<or> worker st = None))"

section \<open>The matcher\<close>

lemma first_some_None: "(first_some f xs = None) = (\<forall>x\<in>set xs. f x = None)"
  by (induction xs) (auto split: option.splits)

lemma first_some_Some: "first_some f xs = Some y \<Longrightarrow> \<exists>x\<in>set xs. f x = Some y"
  by (induction xs) (auto split: option.splits)

lemma first_some_skip:
  "\<forall>x\<in>set xs. f x = None \<Longrightarrow> first_some f (xs @ ys) = first_some f ys"
  by (induction xs) auto

lemma first_some_cong':
  "(\<And>x. x \<in> set xs \<Longrightarrow> f x = g x) \<Longrightarrow> first_some f xs = first_some g xs"
  by (induction xs) (auto split: option.splits)

lemma first_some_head_or_none:
  "\<forall>x\<in>set xs. f x = None \<Longrightarrow> first_some f (x0 # xs) = f x0"
  by (cases "f x0") (simp_all add: first_some_None)

lemma excludes_fails:
  "excludes c r \<Longrightarrow> in_cls c x \<Longrightarrow> rx_match r (x # t) = None"
proof (induction r arbitrary: )
  case Nil
  then show ?case by simp
next
  case (Cons i r)
  show ?case
  proof (cases i)
    case (Lit l)
    with Cons.prems show ?thesis
      by (cases l) (auto simp: starts_with_def)
  next
    case (Star c')
    with Cons.prems have nc: "\<not> in_cls c' x" and ex: "excludes c r"
      by (auto simp: list_all_iff in_cls_def)
    from nc have "takeWhile (in_cls c') (x # t) = []" by simp
    with Star Cons.IH[OF ex Cons.prems(2)] show ?thesis by simp
  next
    case (GroupPlus c')
    with Cons.prems have nc: "\<not> in_cls c' x"
      by (auto simp: list_all_iff in_cls_def)
    then have "takeWhile (in_cls c') (x # t) = []" by simp
    with GroupPlus show ?thesis by simp
  next
    case (GroupAlt alts)
    have "\<not> starts_with a (x # t)" if "a \<in> set alts" for a
    proof -
      from that Cons.prems(1) GroupAlt
      have "case a of [] \<Rightarrow> False | y # _ \<Rightarrow> \<not> in_cls c y"
        by (simp add: list_all_iff)
      then obtain y a' where a: "a = y # a'" and "\<not> in_cls c y"
        by (cases a) simp_all
      with Cons.prems(2) have "y \<noteq> x" by auto
      with a show ?thesis by (simp add: starts_with_def)
    qed
    with GroupAlt show ?thesis by (simp add: first_some_None)
  qed
qed

lemma drop_in_takeWhile:
  "n < length (takeWhile P s) \<Longrightarrow> \<exists>x t. drop n s = x # t \<and> P x"
proof -
  assume n: "n < length (takeWhile P s)"
  then have "n < length s" using length_takeWhile_le[of P s] by simp
  then have "drop n s = s ! n # drop (Suc n) s" by (simp add: Cons_nth_drop_Suc)
  moreover have "P (s ! n)" using n by (metis nth_mem set_takeWhileD takeWhile_nth)
  ultimately show ?thesis by blast
qed

lemma drop_length_takeWhile: "drop (length (takeWhile P s)) s = dropWhile P s"
  by (induction s) auto

lemma take_length_takeWhile: "take (length (takeWhile P s)) s = takeWhile P s"
  by (induction s) auto

lemma star_greedy:
  assumes "excludes c r"
  shows "rx_match (Star c # r) s = rx_match r (dropWhile (in_cls c) s)"
proof -
  let ?k = "length (takeWhile (in_cls c) s)"
  have "\<forall>n\<in>set (rev [0..<?k]). rx_match r (drop n s) = None"
    using drop_in_takeWhile[of _ "in_cls c" s] excludes_fails[OF assms] by fastforce
  then have "first_some (\<lambda>n. rx_match r (drop n s)) (?k # rev [0..<?k]) = rx_match r (drop ?k s)"
    by (rule first_some_head_or_none)
  then show ?thesis by (simp add: drop_length_takeWhile)
qed

lemma plus_greedy:
  assumes "excludes c r"
  shows "rx_match (GroupPlus c # r) s =
     (if takeWhile (in_cls c) s = [] then None
      else map_option (\<lambda>gs. takeWhile (in_cls c) s # gs) (rx_match r (dropWhile (in_cls c) s)))"
proof (cases "takeWhile (in_cls c) s = []")
  case True
  then show ?thesis by simp
next
  case False
  let ?k = "length (takeWhile (in_cls c) s)"
  let ?f = "\<lambda>n. map_option (\<lambda>gs. take n s # gs) (rx_match r (drop n s))"
  from False have k: "Suc 0 \<le> ?k" by (cases "takeWhile (in_cls c) s") simp_all
  then have up: "rev [1..<Suc ?k] = ?k # rev [1..<?k]" by simp
  have "\<forall>n\<in>set (rev [1..<?k]). ?f n = None"
    using drop_in_takeWhile[of _ "in_cls c" s] excludes_fails[OF assms] by fastforce
  then have "first_some ?f (?k # rev [1..<?k]) = ?f ?k"
    by (rule first_some_head_or_none)
  with False up show ?thesis
    by (simp add: drop_length_takeWhile take_length_takeWhile del: upt_Suc)
qed

lemma rx_match_greedy: "unambiguous p \<Longrightarrow> rx_match p s = greedy p s"
proof (induction p arbitrary: s)
  case Nil
  show ?case by simp
next
  case (Cons i p)
  show ?case
  proof (cases i)
    case (Lit l)
    with Cons show ?thesis by simp
  next
    case (Star c)
    with Cons show ?thesis by (simp add: star_greedy del: rx_match.simps)
  next
    case (GroupPlus c)
    with Cons show ?thesis by (simp add: plus_greedy del: rx_match.simps)
  next
    case (GroupAlt alts)
    with Cons show ?thesis by (simp cong: if_cong)
  qed
qed

lemma unambiguous_regex_pattern: "unambiguous regex_pattern"
  by (simp add: regex_pattern_def in_cls_def whitespace_chars_def)

lemma first_some_map: "first_some f (map g xs) = first_some (\<lambda>x. f (g x)) xs"
  by (induction xs) (auto split: option.splits)

lemma rx_search_Nil: "rx_search p [] = rx_match p []"
  by (simp add: rx_search_def split: option.splits)

lemma rx_search_Cons:
  "rx_search p (x # s) =
     (case rx_match p (x # s) of Some g \<Rightarrow> Some g | None \<Rightarrow> rx_search p s)"
proof -
  have "[0..<Suc (Suc (length s))] = 0 # [Suc 0..<Suc (Suc (length s))]"
    by (rule upt_conv_Cons) simp
  also have "[Suc 0..<Suc (Suc (length s))] = map Suc [0..<Suc (length s)]"
    by (rule map_Suc_upt[symmetric])
  finally have "[0..<Suc (Suc (length s))] = 0 # map Suc [0..<Suc (length s)]" .
  then show ?thesis
    by (simp add: rx_search_def first_some_map del: upt_Suc split: option.splits)
qed

lemma regex_needs_T: "rx_match regex_pattern s = Some gs \<Longrightarrow> \<exists>s'. s = CHR ''T'' # s'"
  by (cases s) (auto simp: regex_pattern_def starts_with_def split: if_splits)

lemma rx_search_no_T: "CHR ''T'' \<notin> set s \<Longrightarrow> rx_search regex_pattern s = None"
proof (induction s)
  case Nil
  show ?case using regex_needs_T[of "[]"] by (cases "rx_match regex_pattern []") (auto simp: rx_search_Nil)
next
  case (Cons x s)
  then have "rx_match regex_pattern (x # s) = None"
    using regex_needs_T[of "x # s"] by (cases "rx_match regex_pattern (x # s)") auto
  with Cons show ?case by (simp add: rx_search_Cons)
qed

lemma rx_search_skip:
  "CHR ''T'' \<notin> set pre \<Longrightarrow> rx_search regex_pattern (pre @ s) = rx_search regex_pattern s"
proof (induction pre)
  case Nil
  show ?case by simp
next
  case (Cons x pre)
  then have "rx_match regex_pattern (x # pre @ s) = None"
    using regex_needs_T[of "x # pre @ s"] by (cases "rx_match regex_pattern (x # pre @ s)") auto
  with Cons show ?case by (simp add: rx_search_Cons)
qed

lemma rx_search_found:
  "rx_match p s \<noteq> None \<Longrightarrow> rx_search p (pre @ s) \<noteq> None"
proof (induction pre)
  case Nil
  then show ?case by (cases s) (auto simp: rx_search_Nil rx_search_Cons)
next
  case (Cons x pre)
  then show ?case by (auto simp: rx_search_Cons split: option.splits)
qed

lemma rx_search_here:
  "rx_match p s = Some gs \<Longrightarrow> rx_search p s = Some gs"
  by (cases s) (auto simp: rx_search_Nil rx_search_Cons)

lemma token_take:
  "list_all (in_cls c) u \<Longrightarrow> \<not> in_cls c x \<Longrightarrow> takeWhile (in_cls c) (u @ x # v) = u"
  by (induction u) auto

lemma token_drop:
  "list_all (in_cls c) u \<Longrightarrow> \<not> in_cls c x \<Longrightarrow> dropWhile (in_cls c) (u @ x # v) = x # v"
  by (induction u) auto

lemma not_space_DigitDot: "in_cls DigitDot x \<Longrightarrow> \<not> in_cls Whitespace x"
  by (auto simp: in_cls_def whitespace_chars_def)

lemma not_space_MinusDigitDot: "in_cls MinusDigitDot x \<Longrightarrow> \<not> in_cls Whitespace x"
  by (auto simp: in_cls_def whitespace_chars_def)

lemma space_before_DigitDot:
  "u \<noteq> [] \<Longrightarrow> list_all (in_cls DigitDot) u \<Longrightarrow> dropWhile (in_cls Whitespace) (u @ v) = u @ v"
  by (cases u) (auto simp: not_space_DigitDot)

lemma space_before_MinusDigitDot:
  "u \<noteq> [] \<Longrightarrow> list_all (in_cls MinusDigitDot) u \<Longrightarrow> dropWhile (in_cls Whitespace) (u @ v) = u @ v"
  by (cases u) (auto simp: not_space_MinusDigitDot)

lemma cls_facts:
  "in_cls Whitespace (CHR '' '')" "\<not> in_cls DigitDot (CHR '' '')" "\<not> in_cls MinusDigitDot (CHR '' '')"
  "\<not> in_cls Whitespace (CHR ''C'')" "\<not> in_cls Whitespace (CHR ''|'')" "\<not> in_cls Whitespace (CHR ''H'')"
  "\<not> in_cls Whitespace (CHR ''%'')" "\<not> in_cls Whitespace (CHR ''P'')" "\<not> in_cls Whitespace (CHR ''A'')"
  "\<not> in_cls Whitespace (CHR ''O'')" "\<not> in_cls Whitespace (CHR ''-'')" "\<not> in_cls DigitDot (CHR ''-'')"
  by (simp_all add: in_cls_def whitespace_chars_def)

lemma greedy_wire:
  assumes t: "t \<noteq> []" "list_all (in_cls DigitDot) t"
    and h: "h \<noteq> []" "list_all (in_cls DigitDot) h"
    and w: "w \<noteq> []" "list_all (in_cls MinusDigitDot) w"
    and a: "a = ''ON'' \<or> a = ''OFF''"
  shows "greedy regex_pattern (wire_line t h w a @ post) = Some [t, h, w, a]"
  using assms
  by (auto simp: regex_pattern_def wire_line_def starts_with_def cls_facts
      token_take token_drop space_before_DigitDot space_before_MinusDigitDot)

lemma take_in_takeWhile:
  "n \<le> length (takeWhile P s) \<Longrightarrow> list_all P (take n s)"
proof -
  assume "n \<le> length (takeWhile P s)"
  then have "take n s = take n (takeWhile P s)"
    by (metis takeWhile_dropWhile_id take_all take_append diff_is_0_eq' take_0 append_Nil2 )
  then show ?thesis
    by (metis in_set_takeD list_all_iff set_takeWhileD)
qed

lemma rx_match_groups_ok: "rx_match p s = Some gs \<Longrightarrow> groups_ok p gs"
proof (induction p arbitrary: s gs)
  case Nil
  then show ?case by simp
next
  case (Cons i p)
  show ?case
  proof (cases i)
    case (Lit l)
    with Cons show ?thesis by (auto split: if_splits)
  next
    case (Star c)
    with Cons.prems obtain n where "rx_match p (drop n s) = Some gs"
      by (auto dest!: first_some_Some simp del: upt_Suc set_rev)
    with Cons.IH Star show ?thesis by simp
  next
    case (GroupPlus c)
    with Cons.prems obtain n gs' where n: "n \<in> set (rev [1..<Suc (length (takeWhile (in_cls c) s))])"
      and m: "rx_match p (drop n s) = Some gs'" and gs: "gs = take n s # gs'"
      by (auto dest!: first_some_Some simp del: upt_Suc set_rev)
    from n have n1: "1 \<le> n" and n2: "n \<le> length (takeWhile (in_cls c) s)" by auto
    from n2 have "list_all (in_cls c) (take n s)" by (rule take_in_takeWhile)
    moreover from n1 n2 have "take n s \<noteq> []"
      by (cases s) auto
    ultimately show ?thesis using Cons.IH[OF m] GroupPlus gs by simp
  next
    case (GroupAlt alts)
    with Cons.prems obtain a gs' where "a \<in> set alts" "rx_match p (drop (length a) s) = Some gs'"
      "gs = a # gs'"
      by (auto dest!: first_some_Some split: if_splits)
    with Cons.IH GroupAlt show ?thesis by simp
  qed
qed

lemma rx_search_match:
  "rx_search p s = Some gs \<Longrightarrow> \<exists>i. rx_match p (drop i s) = Some gs"
  unfolding rx_search_def by (drule first_some_Some) blast

lemma regex_groups_shape:
  "groups_ok regex_pattern gs \<Longrightarrow>
     \<exists>t h w a. gs = [t, h, w, a] \<and>
       t \<noteq> [] \<and> list_all (in_cls DigitDot) t \<and>
       h \<noteq> [] \<and> list_all (in_cls DigitDot) h \<and>
       w \<noteq> [] \<and> list_all (in_cls MinusDigitDot) w \<and>
       (a = ''ON'' \<or> a = ''OFF'')"
  by (auto simp: regex_pattern_def split: list.splits)

lemma regex_search_groups:
  assumes "rx_search regex_pattern line = Some gs"
  shows "\<exists>t h w a. gs = [t, h, w, a] \<and>
       t \<noteq> [] \<and> list_all (in_cls DigitDot) t \<and>
       h \<noteq> [] \<and> list_all (in_cls DigitDot) h \<and>
       w \<noteq> [] \<and> list_all (in_cls MinusDigitDot) w \<and>
       (a = ''ON'' \<or> a = ''OFF'')"
proof -
  from assms obtain i where "rx_match regex_pattern (drop i line) = Some gs"
    using rx_search_match by blast
  then have "groups_ok regex_pattern gs" by (rule rx_match_groups_ok)
  then show ?thesis by (rule regex_groups_shape)
qed

lemma rx_match_groups_in_line:
  "rx_match p s = Some gs \<Longrightarrow> g \<in> set gs \<Longrightarrow> \<exists>u v. s = u @ g @ v"
proof (induction p arbitrary: s gs)
  case Nil
  then show ?case by simp
next
  case (Cons i p)
  have later: "\<exists>u v. s = u @ g @ v" if "rx_match p (drop n s) = Some gs'" "g \<in> set gs'" for n gs'
  proof -
    from Cons.IH[OF that] obtain u v where "drop n s = u @ g @ v" by blast
    then have "s = (take n s @ u) @ g @ v" by (metis append_take_drop_id append_assoc)
    then show ?thesis by blast
  qed
  show ?case
  proof (cases i)
    case (Lit l)
    with Cons.prems later show ?thesis by (auto split: if_splits)
  next
    case (Star c)
    with Cons.prems obtain n where "rx_match p (drop n s) = Some gs"
      by (auto dest!: first_some_Some simp del: upt_Suc set_rev)
    with Cons.prems later show ?thesis by blast
  next
    case (GroupPlus c)
    with Cons.prems obtain n gs' where
      m: "rx_match p (drop n s) = Some gs'" and gs: "gs = take n s # gs'"
      by (auto dest!: first_some_Some simp del: upt_Suc set_rev)
    show ?thesis
    proof (cases "g = take n s")
      case True
      then have "s = [] @ g @ drop n s" by simp
      then show ?thesis by blast
    next
      case False
      with gs Cons.prems have "g \<in> set gs'" by simp
      with m later show ?thesis by blast
    qed
  next
    case (GroupAlt alts)
    with Cons.prems obtain a gs' where a: "starts_with a s"
      and m: "rx_match p (drop (length a) s) = Some gs'" and gs: "gs = a # gs'"
      by (auto dest!: first_some_Some split: if_splits)
    show ?thesis
    proof (cases "g = a")
      case True
      with a have "s = [] @ g @ drop (length a) s"
        by (simp add: starts_with_def) (metis append_take_drop_id)
      then show ?thesis by blast
    next
      case False
      with gs Cons.prems have "g \<in> set gs'" by simp
      with m later show ?thesis by blast
    qed
  qed
qed

lemma signed_token_split:
  assumes "list_all (in_cls MinusDigitDot) t" "CHR ''-'' \<in> set t"
  shows "\<exists>t1 t2. t = t1 @ CHR ''-'' # t2 \<and> list_all (in_cls DigitDot) t1"
proof -
  from assms(2) obtain t1 t2 where t: "t = t1 @ CHR ''-'' # t2" and n: "CHR ''-'' \<notin> set t1"
    by (auto dest: split_list_first)
  have step: "in_cls MinusDigitDot x \<Longrightarrow> x \<noteq> CHR ''-'' \<Longrightarrow> in_cls DigitDot x" for x
    by (simp add: in_cls_def)
  from assms(1) t have "list_all (in_cls MinusDigitDot) t1" by simp
  with n have "list_all (in_cls DigitDot) t1"
    unfolding list_all_iff using step by blast
  with t show ?thesis by blast
qed

lemma greedy_signed_temperature:
  assumes "list_all (in_cls DigitDot) t1"
  shows "greedy regex_pattern (''T: '' @ (t1 @ CHR ''-'' # t2) @ rest) = None"
proof (cases "t1 = []")
  case True
  then show ?thesis
    by (simp add: regex_pattern_def starts_with_def cls_facts)
next
  case False
  with assms show ?thesis
    by (simp add: regex_pattern_def starts_with_def cls_facts token_take token_drop
        space_before_DigitDot)
qed

section \<open>Line events\<close>

lemma search_reading:
  "rx_search regex_pattern ''T: 85.0 C | H: 20.0 % | Peso: 150 | Aquecedor: ON'' =
     Some [''85.0'', ''20.0'', ''150'', ''ON'']"
  by code_simp

lemma search_garbage: "rx_search regex_pattern ''garbage line'' = None"
  by code_simp

lemma process_data_no_match:
  "rx_search regex_pattern line = None \<Longrightarrow> process_data st line = log_message st line"
  by (simp add: process_data_def)

lemma dashboard_log_message: "dashboard (log_message st msg) = dashboard st"
  by (simp add: dashboard_def log_message_def)

lemma dashboard_process_data:
  "dashboard (process_data st line) =
     (if rx_search regex_pattern line = None then dashboard st
      else dashboard (process_data st0 line))"
  by (auto simp: process_data_def dashboard_def log_message_def Let_def)

lemma log_view_process_data: "log_view (process_data st line) = log_view st @ [line]"
  by (simp add: process_data_def log_message_def Let_def split: option.splits)

lemma log_view_lines: "log_view (foldl process_data st lines) = log_view st @ lines"
  by (induction lines rule: rev_induct) (simp_all add: log_view_process_data)

lemma dashboard_lines:
  "dashboard (foldl process_data st lines) =
     (case last_match lines of
        None \<Rightarrow> dashboard st
      | Some l \<Rightarrow> dashboard (process_data st0 l))"
proof (induction lines rule: rev_induct)
  case Nil
  show ?case by (simp add: last_match_def)
next
  case (snoc l lines)
  show ?case
  proof (cases "rx_search regex_pattern l = None")
    case True
    then have "last_match (lines @ [l]) = last_match lines" by (simp add: last_match_def)
    with True snoc show ?thesis
      using dashboard_process_data[of "foldl process_data st lines" l st0] by simp
  next
    case False
    then have "last_match (lines @ [l]) = Some l" by (simp add: last_match_def)
    moreover from False
    have "dashboard (process_data (foldl process_data st lines) l) =
        dashboard (process_data st0 l)"
      by (simp only: dashboard_process_data[of "foldl process_data st lines" l st0] if_False)
    ultimately show ?thesis by simp
  qed
qed

text \<open>
  Claim C1. A line on which the pattern is not found changes nothing but the log, which
  gains that line (and is scrolled to its end): the four card texts and the colour of
  the heater card stay as they were. After any sequence of line events the log holds the
  lines in order, and the dashboard is the one the most recent matching line produces,
  whatever was shown before it, or the dashboard before the sequence when no line of it
  matched.
\<close>

theorem unmatched_line_only_logged:
  "(rx_search regex_pattern line = None \<longrightarrow>
      process_data st line = st\<lparr>log_view := log_view st @ [line], log_at_end := True\<rparr>) \<and>
   log_view (foldl process_data st lines) = log_view st @ lines \<and>
   dashboard (foldl process_data st lines) =
     (case last_match lines of
        None \<Rightarrow> dashboard st
      | Some l \<Rightarrow> dashboard (process_data st0 l))"
  using dashboard_lines[of st lines st0]
  by (simp add: process_data_no_match log_message_def log_view_lines)

lemma process_reading:
  "dashboard (process_data st ''T: 85.0 C | H: 20.0 % | Peso: 150 | Aquecedor: ON'') =
     (''85.0 '' @ [CHR 0xB0] @ ''C'', ''20.0 %'', ''150 g'', ''ON'',
      ''QFrame { background-color: #F44336; border-radius: 10px; }'')"
  by (simp add: process_data_def search_reading dashboard_def log_message_def group_def
      frame_style_def)

theorem unmatched_line_only_logged_witness:
  "process_data (MainWindow []) ''garbage line'' =
     (MainWindow [])\<lparr>log_view := [''garbage line''], log_at_end := True\<rparr> \<and>
   dashboard (foldl process_data (MainWindow [])
       [''T: 85.0 C | H: 20.0 % | Peso: 150 | Aquecedor: ON'', ''garbage line'']) =
     (''85.0 '' @ [CHR 0xB0] @ ''C'', ''20.0 %'', ''150 g'', ''ON'',
      ''QFrame { background-color: #F44336; border-radius: 10px; }'')"
proof -
  have lm: "last_match [''T: 85.0 C | H: 20.0 % | Peso: 150 | Aquecedor: ON'', ''garbage line'']
      = Some ''T: 85.0 C | H: 20.0 % | Peso: 150 | Aquecedor: ON''"
    by (simp add: last_match_def search_reading search_garbage)
  have lv: "log_view (MainWindow []) = []"
    by (simp add: MainWindow_def refresh_ports_def)
  show ?thesis
    using unmatched_line_only_logged[of "''garbage line''" "MainWindow []"
        "[''T: 85.0 C | H: 20.0 % | Peso: 150 | Aquecedor: ON'', ''garbage line'']" "MainWindow []"]
    by (simp only: search_garbage lm lv process_reading option.case append_Nil simp_thms)
qed

lemma rx_search_groups_in_line:
  assumes "rx_search p line = Some gs" "g \<in> set gs"
  shows "\<exists>u v. line = u @ g @ v"
proof -
  from assms(1) obtain i where "rx_match p (drop i line) = Some gs"
    using rx_search_match by blast
  with assms(2) obtain u v where "drop i line = u @ g @ v"
    using rx_match_groups_in_line by blast
  then have "line = (take i line @ u) @ g @ v"
    by (metis append_take_drop_id append_assoc)
  then show ?thesis by blast
qed

text \<open>
  Claim C2, as amended. On a line in which the pattern is found there are four groups,
  each a piece of the line as it stands; the heater card shows group 4 as it is, and the
  temperature, humidity and weight cards show groups 1 to 3 as they are, each followed by
  its fixed unit text.
\<close>

theorem matched_line_shows_groups:
  assumes "rx_search regex_pattern line = Some gs"
  shows "length gs = 4 \<and>
     (\<forall>n\<in>{1, 2, 3, 4}. \<exists>u v. line = u @ group gs n @ v) \<and>
     lbl_temp (process_data st line) = group gs 1 @ '' '' @ [CHR 0xB0] @ ''C'' \<and>
     lbl_hum (process_data st line) = group gs 2 @ '' %'' \<and>
     lbl_weight (process_data st line) = group gs 3 @ '' g'' \<and>
     lbl_heater (process_data st line) = group gs 4"
proof -
  from assms obtain t h w a where gs: "gs = [t, h, w, a]"
    using regex_search_groups by blast
  have "\<exists>u v. line = u @ g @ v" if "g \<in> set gs" for g
    using assms that by (rule rx_search_groups_in_line)
  with gs have "\<forall>n\<in>{1, 2, 3, 4}. \<exists>u v. line = u @ group gs n @ v"
    by (simp add: group_def)
  with assms gs show ?thesis
    by (simp add: process_data_def log_message_def Let_def)
qed

theorem matched_line_shows_groups_witness:
  "lbl_temp (process_data (MainWindow []) ''T: 85.0 C | H: 20.0 % | Peso: 150 | Aquecedor: ON'') =
     ''85.0 '' @ [CHR 0xB0] @ ''C'' \<and>
   lbl_hum (process_data (MainWindow []) ''T: 85.0 C | H: 20.0 % | Peso: 150 | Aquecedor: ON'') =
     ''20.0 %'' \<and>
   lbl_weight (process_data (MainWindow []) ''T: 85.0 C | H: 20.0 % | Peso: 150 | Aquecedor: ON'') =
     ''150 g'' \<and>
   lbl_heater (process_data (MainWindow []) ''T: 85.0 C | H: 20.0 % | Peso: 150 | Aquecedor: ON'') =
     ''ON''"
  using matched_line_shows_groups[OF search_reading, of "MainWindow []"]
  by (simp add: group_def)

theorem labels_are_not_bare_groups:
  "rx_search regex_pattern ''T: 85.0 C | H: 20.0 % | Peso: 150 | Aquecedor: ON'' =
     Some [''85.0'', ''20.0'', ''150'', ''ON''] \<and>
   lbl_temp (process_data (MainWindow []) ''T: 85.0 C | H: 20.0 % | Peso: 150 | Aquecedor: ON'')
     \<noteq> ''85.0''"
  by (simp add: search_reading process_data_def log_message_def group_def)

text \<open>
  Claim C4. On a line in which the pattern is found, the colour of the heater card is
  decided by group 4 alone: the warning colour when it is \<open>ON\<close>, the neutral colour
  otherwise; and group 4 is \<open>ON\<close> or \<open>OFF\<close>.
\<close>

theorem heater_colour_from_token:
  assumes "rx_search regex_pattern line = Some gs"
  shows "lbl_heater_frame (process_data st line) =
       (if group gs 4 = ''ON'' then frame_style ''#F44336'' else frame_style ''#9E9E9E'') \<and>
     (group gs 4 = ''ON'' \<or> group gs 4 = ''OFF'') \<and>
     frame_style ''#F44336'' \<noteq> frame_style ''#9E9E9E''"
proof -
  from assms obtain t h w a where "gs = [t, h, w, a]" "a = ''ON'' \<or> a = ''OFF''"
    using regex_search_groups by blast
  with assms show ?thesis
    by (auto simp: process_data_def log_message_def Let_def group_def frame_style_def)
qed

lemma search_reading_off:
  "rx_search regex_pattern ''T: 42.5 C | H: 31.0 % | Peso: 980 | Aquecedor: OFF'' =
     Some [''42.5'', ''31.0'', ''980'', ''OFF'']"
  by code_simp

theorem heater_colour_from_token_witness:
  "lbl_heater_frame
     (process_data ((MainWindow [])\<lparr>lbl_heater_frame := frame_style ''#F44336''\<rparr>)
        ''T: 42.5 C | H: 31.0 % | Peso: 980 | Aquecedor: OFF'') =
     ''QFrame { background-color: #9E9E9E; border-radius: 10px; }'' \<and>
   lbl_heater_frame
     (process_data (MainWindow []) ''T: 85.0 C | H: 20.0 % | Peso: 150 | Aquecedor: ON'') =
     ''QFrame { background-color: #F44336; border-radius: 10px; }''"
  using heater_colour_from_token[OF search_reading_off,
      of "(MainWindow [])\<lparr>lbl_heater_frame := frame_style ''#F44336''\<rparr>"]
    heater_colour_from_token[OF search_reading, of "MainWindow []"]
  by (simp add: group_def frame_style_def)

lemma search_malformed:
  "rx_search regex_pattern ''T: ... C | H: 1.2.3 % | Peso: 1-2 | Aquecedor: ON'' =
     Some [''...'', ''1.2.3'', ''1-2'', ''ON'']"
  by code_simp

text \<open>
  Claim C10. The tokens are not checked to be decimal numbers: on the line below the
  pattern is found with the groups \<open>...\<close>, \<open>1.2.3\<close> and \<open>1-2\<close>, and the cards
  show them as they are.
\<close>

theorem malformed_tokens_shown:
  "rx_search regex_pattern ''T: ... C | H: 1.2.3 % | Peso: 1-2 | Aquecedor: ON'' =
     Some [''...'', ''1.2.3'', ''1-2'', ''ON''] \<and>
   dashboard (process_data st ''T: ... C | H: 1.2.3 % | Peso: 1-2 | Aquecedor: ON'') =
     (''... '' @ [CHR 0xB0] @ ''C'', ''1.2.3 %'', ''1-2 g'', ''ON'',
      ''QFrame { background-color: #F44336; border-radius: 10px; }'')"
  by (simp add: search_malformed process_data_def dashboard_def log_message_def group_def
      frame_style_def)

section \<open>Readings in the wire format\<close>

lemma not_DigitDot_C: "\<not> in_cls DigitDot (CHR ''C'')"
  by (simp add: in_cls_def)

lemma greedy_signed_humidity:
  assumes "list_all (in_cls DigitDot) t" "list_all (in_cls DigitDot) h1"
  shows "greedy regex_pattern (''T: '' @ t @ '' C | H: '' @ (h1 @ CHR ''-'' # h2) @ rest) = None"
proof (cases "t = []")
  case True
  then show ?thesis
    by (simp add: regex_pattern_def starts_with_def cls_facts not_DigitDot_C)
next
  case t: False
  show ?thesis
  proof (cases "h1 = []")
    case True
    with t assms show ?thesis
      by (simp add: regex_pattern_def starts_with_def cls_facts token_take token_drop
        space_before_DigitDot)
  next
    case False
    with t assms show ?thesis
      by (simp add: regex_pattern_def starts_with_def cls_facts token_take token_drop
        space_before_DigitDot)
  qed
qed

lemma unsigned_token:
  assumes "list_all (in_cls MinusDigitDot) t" "CHR ''-'' \<notin> set t"
  shows "list_all (in_cls DigitDot) t"
proof -
  have "in_cls MinusDigitDot x \<Longrightarrow> x \<noteq> CHR ''-'' \<Longrightarrow> in_cls DigitDot x" for x
    by (simp add: in_cls_def)
  with assms show ?thesis unfolding list_all_iff by blast
qed

lemma token_no_T:
  assumes "list_all (in_cls MinusDigitDot) u"
  shows "CHR ''T'' \<notin> set u"
proof
  assume "CHR ''T'' \<in> set u"
  with assms have "in_cls MinusDigitDot (CHR ''T'')" by (simp add: list_all_iff)
  then show False by (simp add: in_cls_def)
qed

lemma rx_match_wire:
  assumes "t \<noteq> []" "list_all (in_cls DigitDot) t"
    and "h \<noteq> []" "list_all (in_cls DigitDot) h"
    and "w \<noteq> []" "list_all (in_cls MinusDigitDot) w"
    and "a = ''ON'' \<or> a = ''OFF''"
  shows "rx_match regex_pattern (wire_line t h w a @ post) = Some [t, h, w, a]"
  using greedy_wire[OF assms] by (simp add: rx_match_greedy unambiguous_regex_pattern)

lemma rx_search_signed:
  assumes t: "list_all (in_cls MinusDigitDot) t"
    and h: "list_all (in_cls MinusDigitDot) h"
    and w: "list_all (in_cls MinusDigitDot) w"
    and a: "a = ''ON'' \<or> a = ''OFF''"
    and s: "CHR ''-'' \<in> set t \<or> CHR ''-'' \<in> set h"
  shows "rx_search regex_pattern (wire_line t h w a) = None"
proof -
  let ?rest = "'': '' @ t @ '' C | H: '' @ h @ '' % | Peso: '' @ w @ '' | Aquecedor: '' @ a"
  have line: "wire_line t h w a = CHR ''T'' # ?rest" by (simp add: wire_line_def)
  have "greedy regex_pattern (wire_line t h w a) = None"
  proof (cases "CHR ''-'' \<in> set t")
    case True
    with t obtain t1 t2 where "t = t1 @ CHR ''-'' # t2" "list_all (in_cls DigitDot) t1"
      using signed_token_split by blast
    then show ?thesis
      using greedy_signed_temperature[of t1 t2
          "'' C | H: '' @ h @ '' % | Peso: '' @ w @ '' | Aquecedor: '' @ a"]
      by (simp add: wire_line_def)
  next
    case False
    with t have td: "list_all (in_cls DigitDot) t" by (rule unsigned_token)
    from False s h obtain h1 h2 where "h = h1 @ CHR ''-'' # h2" "list_all (in_cls DigitDot) h1"
      using signed_token_split by blast
    then show ?thesis
      using greedy_signed_humidity[OF td, of h1 h2 "'' % | Peso: '' @ w @ '' | Aquecedor: '' @ a"]
      by (simp add: wire_line_def)
  qed
  then have here: "rx_match regex_pattern (CHR ''T'' # ?rest) = None"
    by (simp add: rx_match_greedy unambiguous_regex_pattern line)
  from a have "CHR ''T'' \<notin> set a" by auto
  with t h w have "CHR ''T'' \<notin> set ?rest" by (simp add: token_no_T)
  then have "rx_search regex_pattern ?rest = None" by (rule rx_search_no_T)
  with here show ?thesis by (simp add: line rx_search_Cons)
qed

text \<open>
  Claim C3, as amended. The pattern is searched for, not matched against the whole line:
  a line is only logged when the pattern is found at no position of it, and a line that
  holds a reading of the wire format between any leading and trailing text does update
  the dashboard. When the leading text has no \<open>T\<close> the four cards show the tokens of
  that reading.
\<close>

theorem reading_inside_line_updates:
  assumes "t \<noteq> []" "list_all (in_cls DigitDot) t"
    and "h \<noteq> []" "list_all (in_cls DigitDot) h"
    and "w \<noteq> []" "list_all (in_cls MinusDigitDot) w"
    and "a = ''ON'' \<or> a = ''OFF''"
  shows "rx_search regex_pattern (pre @ wire_line t h w a @ post) \<noteq> None \<and>
     (CHR ''T'' \<notin> set pre \<longrightarrow>
        dashboard (process_data st (pre @ wire_line t h w a @ post)) =
          (t @ '' '' @ [CHR 0xB0] @ ''C'', h @ '' %'', w @ '' g'', a,
           if a = ''ON'' then frame_style ''#F44336'' else frame_style ''#9E9E9E'')) \<and>
     ((\<forall>i\<le>length line. rx_match regex_pattern (drop i line) = None) \<longrightarrow>
        process_data st line = log_message st line)"
proof -
  have m: "rx_match regex_pattern (wire_line t h w a @ post) = Some [t, h, w, a]"
    using assms by (rule rx_match_wire)
  then have found: "rx_search regex_pattern (pre @ wire_line t h w a @ post) \<noteq> None"
    by (intro rx_search_found) simp
  have shown: "dashboard (process_data st (pre @ wire_line t h w a @ post)) =
          (t @ '' '' @ [CHR 0xB0] @ ''C'', h @ '' %'', w @ '' g'', a,
           if a = ''ON'' then frame_style ''#F44336'' else frame_style ''#9E9E9E'')"
    if "CHR ''T'' \<notin> set pre"
  proof -
    from that m have "rx_search regex_pattern (pre @ wire_line t h w a @ post) = Some [t, h, w, a]"
      by (simp add: rx_search_skip rx_search_here)
    then show ?thesis
      by (simp add: process_data_def dashboard_def log_message_def group_def)
  qed
  have ignored: "process_data st line = log_message st line"
    if "\<forall>i\<le>length line. rx_match regex_pattern (drop i line) = None"
  proof -
    from that have "rx_search regex_pattern line = None"
      by (simp add: rx_search_def first_some_None del: upt_Suc) 
    then show ?thesis by (rule process_data_no_match)
  qed
  from found shown ignored show ?thesis by blast
qed

lemma digits_85: "list_all (in_cls DigitDot) ''85.0''" by (simp add: in_cls_def)
lemma digits_20: "list_all (in_cls DigitDot) ''20.0''" by (simp add: in_cls_def)
lemma digits_150: "list_all (in_cls MinusDigitDot) ''150''" by (simp add: in_cls_def)

theorem reading_inside_line_updates_witness:
  "dashboard (process_data (MainWindow [])
      (''>> '' @ wire_line ''85.0'' ''20.0'' ''150'' ''ON'' @ '' <<'')) =
     (''85.0 '' @ [CHR 0xB0] @ ''C'', ''20.0 %'', ''150 g'', ''ON'', frame_style ''#F44336'')"
  using reading_inside_line_updates[OF _ digits_85 _ digits_20 _ digits_150,
      of "''ON''" "''>> ''" "'' <<''" "MainWindow []" "[]"]
  by simp

theorem longer_line_updates:
  "(\<forall>t h w a. ''>> T: 85.0 C | H: 20.0 % | Peso: 150 | Aquecedor: ON <<'' \<noteq> wire_line t h w a) \<and>
   dashboard (process_data (MainWindow [])
       ''>> T: 85.0 C | H: 20.0 % | Peso: 150 | Aquecedor: ON <<'') \<noteq>
     dashboard (MainWindow [])"
proof -
  have "rx_search regex_pattern ''>> T: 85.0 C | H: 20.0 % | Peso: 150 | Aquecedor: ON <<'' =
      Some [''85.0'', ''20.0'', ''150'', ''ON'']"
    by code_simp
  then show ?thesis
    by (simp add: wire_line_def process_data_def dashboard_def log_message_def group_def
        MainWindow_def refresh_ports_def)
qed

text \<open>
  Claim C9. For a reading printed with tokens over minus signs, digits and dots: when the
  temperature or the humidity token holds a minus sign the pattern is found nowhere in
  the line and the dashboard stays as it was; when neither does (and neither is empty)
  the pattern is found and the weight card shows the weight token as it is, minus signs
  included.
\<close>

theorem sign_only_in_weight:
  assumes "list_all (in_cls MinusDigitDot) t" "list_all (in_cls MinusDigitDot) h"
    and "w \<noteq> []" "list_all (in_cls MinusDigitDot) w"
    and "a = ''ON'' \<or> a = ''OFF''"
  shows "(CHR ''-'' \<in> set t \<or> CHR ''-'' \<in> set h \<longrightarrow>
        rx_search regex_pattern (wire_line t h w a) = None \<and>
        dashboard (process_data st (wire_line t h w a)) = dashboard st) \<and>
     (CHR ''-'' \<notin> set t \<and> CHR ''-'' \<notin> set h \<and> t \<noteq> [] \<and> h \<noteq> [] \<longrightarrow>
        rx_search regex_pattern (wire_line t h w a) = Some [t, h, w, a] \<and>
        lbl_weight (process_data st (wire_line t h w a)) = w @ '' g'')"
proof -
  have neg: "rx_search regex_pattern (wire_line t h w a) = None \<and>
        dashboard (process_data st (wire_line t h w a)) = dashboard st"
    if "CHR ''-'' \<in> set t \<or> CHR ''-'' \<in> set h"
  proof -
    have "rx_search regex_pattern (wire_line t h w a) = None"
      using assms(1,2,4,5) that by (rule rx_search_signed)
    then show ?thesis
      by (simp add: process_data_no_match dashboard_log_message)
  qed
  have pos: "rx_search regex_pattern (wire_line t h w a) = Some [t, h, w, a] \<and>
        lbl_weight (process_data st (wire_line t h w a)) = w @ '' g''"
    if "CHR ''-'' \<notin> set t" "CHR ''-'' \<notin> set h" "t \<noteq> []" "h \<noteq> []"
  proof -
    from assms(1) that(1) have td: "list_all (in_cls DigitDot) t" by (rule unsigned_token)
    from assms(2) that(2) have hd: "list_all (in_cls DigitDot) h" by (rule unsigned_token)
    have "rx_match regex_pattern (wire_line t h w a @ []) = Some [t, h, w, a]"
      using that(3) td that(4) hd assms(3,4,5) by (rule rx_match_wire)
    then have "rx_search regex_pattern (wire_line t h w a) = Some [t, h, w, a]"
      by (simp add: rx_search_here)
    then show ?thesis
      by (simp add: process_data_def log_message_def group_def)
  qed
  from neg pos show ?thesis by blast
qed

lemma tokens_m5: "list_all (in_cls MinusDigitDot) ''-5.0''" by (simp add: in_cls_def)
lemma tokens_20: "list_all (in_cls MinusDigitDot) ''20.0''" by (simp add: in_cls_def)
lemma tokens_m150: "list_all (in_cls MinusDigitDot) ''-150''" by (simp add: in_cls_def)
lemma tokens_85: "list_all (in_cls MinusDigitDot) ''85.0''" by (simp add: in_cls_def)

theorem sign_only_in_weight_witness:
  "rx_search regex_pattern ''T: -5.0 C | H: 20.0 % | Peso: -150 | Aquecedor: ON'' = None \<and>
   dashboard (process_data (MainWindow [])
       ''T: -5.0 C | H: 20.0 % | Peso: -150 | Aquecedor: ON'') = dashboard (MainWindow []) \<and>
   rx_search regex_pattern ''T: 85.0 C | H: 20.0 % | Peso: -150 | Aquecedor: ON'' =
     Some [''85.0'', ''20.0'', ''-150'', ''ON''] \<and>
   lbl_weight (process_data (MainWindow [])
       ''T: 85.0 C | H: 20.0 % | Peso: -150 | Aquecedor: ON'') = ''-150 g''"
  using sign_only_in_weight[OF tokens_m5 tokens_20 _ tokens_m150, of "''ON''" "MainWindow []"]
    sign_only_in_weight[OF tokens_85 tokens_20 _ tokens_m150, of "''ON''" "MainWindow []"]
  by (simp add: wire_line_def)

section \<open>The run of the worker\<close>

lemma errors_emitted_append:
  "errors_emitted (xs @ ys) = errors_emitted xs @ errors_emitted ys"
  by (simp add: errors_emitted_def)

lemma errors_emitted_simps:
  "errors_emitted [] = []"
  "errors_emitted [DataReceived l] = []"
  "errors_emitted [ErrorOccurred m] = [m]"
  by (simp_all add: errors_emitted_def)

lemma run_loop_result:
  "run_loop w evs out = Some (w', out', exc) \<Longrightarrow>
     errors_emitted out' = errors_emitted out \<and>
     (serial_port w' = serial_port w \<or> (\<exists>b. serial_port w' = Some b))"
proof (induction evs arbitrary: w out)
  case Nil
  then show ?case by (auto split: if_splits)
next
  case (Cons e es)
  show ?case
  proof (cases "is_running w")
    case False
    with Cons.prems show ?thesis by simp
  next
    case running: True
    show ?thesis
    proof (cases e)
      case StopRequested
      with running Cons.prems Cons.IH[of "w\<lparr>is_running := False\<rparr>" out] show ?thesis by simp
    next
      case NoData
      with running Cons.prems Cons.IH[of w out] show ?thesis by simp
    next
      case (LineRead raw)
      show ?thesis
      proof (cases "strip raw = []")
        case True
        with running LineRead Cons.prems Cons.IH[of w out] show ?thesis by simp
      next
        case False
        with running LineRead Cons.prems
          Cons.IH[of w "out @ [DataReceived (strip raw)]"]
        show ?thesis by (simp add: errors_emitted_append errors_emitted_simps)
      qed
    next
      case (InWaitingRaises msg b)
      with running Cons.prems show ?thesis by auto
    next
      case (ReadlineRaises msg b)
      with running Cons.prems show ?thesis by auto
    qed
  qed
qed

lemma run_loop_stopped:
  "\<not> is_running w \<Longrightarrow> run_loop w evs out = Some (w, out, None)"
  by (cases evs) simp_all

lemma data_signals_simps:
  "data_signals [] = []"
  "data_signals (NoData # es) = data_signals es"
  "data_signals (LineRead raw # es) =
     (if strip raw \<noteq> [] then DataReceived (strip raw) # data_signals es else data_signals es)"
  by (simp_all add: data_signals_def)

lemma errors_emitted_data_signals: "errors_emitted (data_signals evs) = []"
  by (induction evs) (auto simp: data_signals_def errors_emitted_def split: loop_event.splits)

lemma run_loop_quiet:
  "is_running w \<Longrightarrow> list_all quiet pre \<Longrightarrow>
     run_loop w (pre @ rest) out = run_loop w rest (out @ data_signals pre)"
proof (induction pre arbitrary: out)
  case Nil
  show ?case by (simp add: data_signals_simps)
next
  case (Cons e pre)
  from Cons.prems have pre: "list_all quiet pre" by simp
  show ?case
  proof (cases e)
    case NoData
    with Cons.prems(1) Cons.IH[OF Cons.prems(1) pre] show ?thesis
      by (simp add: data_signals_simps)
  next
    case (LineRead raw)
    with Cons.prems(1) Cons.IH[OF Cons.prems(1) pre] show ?thesis
      by (simp add: data_signals_simps)
  next
    case StopRequested
    with Cons.prems(2) show ?thesis by (simp add: quiet_def)
  next
    case (InWaitingRaises m b)
    with Cons.prems(2) show ?thesis by (simp add: quiet_def)
  next
    case (ReadlineRaises m b)
    with Cons.prems(2) show ?thesis by (simp add: quiet_def)
  qed
qed

lemma run_loop_ends:
  assumes "is_running w" "list_all quiet pre"
  shows "run_loop w (pre @ InWaitingRaises msg b # post) [] =
       Some (w\<lparr>serial_port := Some b\<rparr>, data_signals pre, Some msg)"
    and "run_loop w (pre @ ReadlineRaises msg b # post) [] =
       Some (w\<lparr>serial_port := Some b\<rparr>, data_signals pre, Some msg)"
    and "run_loop w (pre @ StopRequested # post) [] =
       Some (w\<lparr>is_running := False\<rparr>, data_signals pre, None)"
    and "run_loop w pre [] = None"
  using assms run_loop_quiet[OF assms, of "[]" "[]"]
  by (simp_all add: run_loop_quiet run_loop_stopped)

lemma run_port_not_left_open:
  assumes "run w opn evs = Some r"
  shows "serial_port (final r) \<noteq> Some True \<and>
     (opn = Opened \<longrightarrow> serial_port (final r) = Some False) \<and>
     length (errors_emitted (emitted r)) \<le> 1"
proof (cases opn)
  case (OpenRaises msg)
  with assms show ?thesis
    by (auto simp: run_def errors_emitted_simps split: if_splits)
next
  case Opened
  with assms obtain w1 out exc where
    loop: "run_loop (w\<lparr>serial_port := Some True\<rparr>) evs [] = Some (w1, out, exc)"
    and r: "r = \<lparr>final = (if serial_port w1 = Some True
                          then w1\<lparr>serial_port := Some False\<rparr> else w1),
                emitted = (case exc of Some msg \<Rightarrow> out @ [ErrorOccurred msg] | None \<Rightarrow> out),
                caught = exc\<rparr>"
    by (auto simp: run_def split: option.splits)
  from run_loop_result[OF loop] have e: "errors_emitted out = []"
    and p: "\<exists>b. serial_port w1 = Some b"
    by (auto simp: errors_emitted_simps)
  from p have "serial_port (final r) = Some False"
    by (auto simp: r)
  moreover from e have "length (errors_emitted (emitted r)) \<le> 1"
    by (cases exc) (simp_all add: r errors_emitted_append errors_emitted_simps)
  ultimately show ?thesis by simp
qed

text \<open>
  Claim C5. For a worker whose flag is set, and events \<open>pre\<close> that neither raise nor ask
  to stop: when the opening raises, \<open>run\<close> returns having emitted the one error
  notification and nothing else, with no port opened; when \<open>in_waiting\<close> or \<open>readline\<close>
  raises after \<open>pre\<close>, \<open>run\<close> returns having emitted the line notifications of \<open>pre\<close> and
  then the one error notification, with the port closed; when the stop request comes
  after \<open>pre\<close>, \<open>run\<close> returns having emitted the line notifications only, with the port
  closed; with \<open>pre\<close> alone \<open>run\<close> does not return. The line notifications hold no error.
  And whenever any run returns, the port is not left open, it is closed when it had been
  opened, and at most one error notification was emitted.
\<close>

theorem run_one_error_per_failure:
  assumes "is_running w" "list_all quiet pre"
  shows "run w (OpenRaises msg) evs =
       Some \<lparr>final = (if serial_port w = Some True then w\<lparr>serial_port := Some False\<rparr> else w),
             emitted = [ErrorOccurred msg], caught = Some msg\<rparr> \<and>
     run w Opened (pre @ InWaitingRaises msg b # post) =
       Some \<lparr>final = w\<lparr>serial_port := Some False\<rparr>,
             emitted = data_signals pre @ [ErrorOccurred msg], caught = Some msg\<rparr> \<and>
     run w Opened (pre @ ReadlineRaises msg b # post) =
       Some \<lparr>final = w\<lparr>serial_port := Some False\<rparr>,
             emitted = data_signals pre @ [ErrorOccurred msg], caught = Some msg\<rparr> \<and>
     run w Opened (pre @ StopRequested # post) =
       Some \<lparr>final = w\<lparr>is_running := False, serial_port := Some False\<rparr>,
             emitted = data_signals pre, caught = None\<rparr> \<and>
     run w Opened pre = None \<and>
     errors_emitted (data_signals pre @ [ErrorOccurred msg]) = [msg] \<and>
     errors_emitted (data_signals pre) = [] \<and>
     (\<forall>r. run w' opn evs' = Some r \<longrightarrow>
        serial_port (final r) \<noteq> Some True \<and>
        (opn = Opened \<longrightarrow> serial_port (final r) = Some False) \<and>
        length (errors_emitted (emitted r)) \<le> 1)"
proof -
  let ?w = "w\<lparr>serial_port := Some True\<rparr>"
  from assms(1) have running: "is_running ?w" by simp
  note ends = run_loop_ends[OF running assms(2)]
  have "run w (OpenRaises msg) evs =
       Some \<lparr>final = (if serial_port w = Some True then w\<lparr>serial_port := Some False\<rparr> else w),
             emitted = [ErrorOccurred msg], caught = Some msg\<rparr>"
    by (simp add: run_def)
  moreover have "run w Opened (pre @ InWaitingRaises msg b # post) =
       Some \<lparr>final = w\<lparr>serial_port := Some False\<rparr>,
             emitted = data_signals pre @ [ErrorOccurred msg], caught = Some msg\<rparr>"
    by (cases b) (simp_all add: run_def ends(1))
  moreover have "run w Opened (pre @ ReadlineRaises msg b # post) =
       Some \<lparr>final = w\<lparr>serial_port := Some False\<rparr>,
             emitted = data_signals pre @ [ErrorOccurred msg], caught = Some msg\<rparr>"
    by (cases b) (simp_all add: run_def ends(2))
  moreover have "run w Opened (pre @ StopRequested # post) =
       Some \<lparr>final = w\<lparr>is_running := False, serial_port := Some False\<rparr>,
             emitted = data_signals pre, caught = None\<rparr>"
    by (simp add: run_def ends(3))
  moreover have "run w Opened pre = None"
    by (simp add: run_def ends(4))
  moreover have "errors_emitted (data_signals pre @ [ErrorOccurred msg]) = [msg]"
    by (simp add: errors_emitted_append errors_emitted_data_signals errors_emitted_simps)
  moreover have "\<forall>r. run w' opn evs' = Some r \<longrightarrow>
        serial_port (final r) \<noteq> Some True \<and>
        (opn = Opened \<longrightarrow> serial_port (final r) = Some False) \<and>
        length (errors_emitted (emitted r)) \<le> 1"
    using run_port_not_left_open by blast
  ultimately show ?thesis
    by (simp only: errors_emitted_data_signals simp_thms)
qed

lemma running_when_made: "is_running (SerialWorker port)"
  by (simp add: SerialWorker_def)

lemma quiet_example: "list_all quiet [NoData, LineRead ''  T: 1 C  '', LineRead ''   '']"
  by (simp add: quiet_def)

theorem run_one_error_per_failure_witness:
  "run (SerialWorker ''COM3'') (OpenRaises ''no such port'') [] =
     Some \<lparr>final = SerialWorker ''COM3'', emitted = [ErrorOccurred ''no such port''],
           caught = Some ''no such port''\<rparr> \<and>
   run (SerialWorker ''COM3'') Opened
      [NoData, LineRead ''  T: 1 C  '', LineRead ''   '', ReadlineRaises ''device lost'' True,
       NoData] =
     Some \<lparr>final = (SerialWorker ''COM3'')\<lparr>serial_port := Some False\<rparr>,
           emitted = [DataReceived ''T: 1 C'', ErrorOccurred ''device lost''],
           caught = Some ''device lost''\<rparr> \<and>
   run (SerialWorker ''COM3'') Opened
      [NoData, LineRead ''  T: 1 C  '', LineRead ''   '', StopRequested] =
     Some \<lparr>final = (SerialWorker ''COM3'')\<lparr>is_running := False, serial_port := Some False\<rparr>,
           emitted = [DataReceived ''T: 1 C''], caught = None\<rparr>"
proof -
  have d: "data_signals [NoData, LineRead ''  T: 1 C  '', LineRead ''   ''] =
      [DataReceived ''T: 1 C'']"
    by (simp add: data_signals_def strip_def in_cls_def whitespace_chars_def)
  have n: "serial_port (SerialWorker ''COM3'') \<noteq> Some True"
    by (simp add: SerialWorker_def)
  from run_one_error_per_failure[OF running_when_made quiet_example,
      of "''COM3''" "''no such port''" "[]" True "[]"]
    run_one_error_per_failure[OF running_when_made quiet_example,
      of "''COM3''" "''device lost''" "[]" True "[NoData]"]
  show ?thesis
    by (simp add: d n)
qed

section \<open>Stopping the worker\<close>

lemma stop_value:
  "stop w dev =
     Some (if thread w = Running
           then (case on_open dev of
                   Opened \<Rightarrow> w\<lparr>is_running := False, serial_port := Some False, thread := Finished\<rparr>
                 | OpenRaises m \<Rightarrow>
                     if serial_port w = Some True
                     then w\<lparr>is_running := False, serial_port := Some False, thread := Finished\<rparr>
                     else w\<lparr>is_running := False, thread := Finished\<rparr>)
           else w\<lparr>is_running := False\<rparr>)"
  by (cases "on_open dev") (simp_all add: stop_def wait_def run_def run_loop_stopped)

lemma stop_returns:
  "\<exists>w'. stop w dev = Some w' \<and> \<not> is_running w' \<and> thread w' \<noteq> Running \<and>
     (thread w = Running \<longrightarrow> thread w' = Finished \<and> serial_port w' \<noteq> Some True)"
  by (cases "on_open dev") (auto simp: stop_value)

lemma wait_may_not_return:
  "wait (start (SerialWorker port)) \<lparr>on_open = Opened, in_loop = [NoData, NoData]\<rparr> = None"
  by (simp add: wait_def start_def SerialWorker_def run_def)

section \<open>Connecting and disconnecting\<close>

lemma worker_valid_iff:
  "worker_valid st = (\<forall>r. worker st = Some r \<longrightarrow> r < length (workers st))"
  by (simp add: worker_valid_def split: option.splits)

lemma others_stopped_iff:
  "others_stopped st =
     (\<forall>i<length (workers st). worker st = Some i \<or> thread (workers st ! i) \<noteq> Running)"
  by (auto simp: others_stopped_def list_all_iff)

lemma running_iff:
  "list_ex (\<lambda>w. thread w = Running) ws = (\<exists>i<length ws. thread (ws ! i) = Running)"
  unfolding list_ex_iff by (metis in_set_conv_nth)

lemma none_running_after_stop:
  assumes "others_stopped st" "worker st = Some r" "thread w \<noteq> Running"
  shows "\<not> list_ex (\<lambda>w. thread w = Running) ((workers st)[r := w])"
proof -
  have "thread ((workers st)[r := w] ! i) \<noteq> Running" if "i < length (workers st)" for i
  proof (cases "i = r")
    case True
    with that assms(3) show ?thesis by simp
  next
    case False
    with that assms(1,2) show ?thesis by (auto simp: others_stopped_iff)
  qed
  then show ?thesis by (simp add: running_iff)
qed

lemma none_running_without_worker:
  assumes "others_stopped st" "worker st = None"
  shows "\<not> list_ex (\<lambda>w. thread w = Running) (workers st)"
  using assms by (simp add: running_iff others_stopped_iff)

lemma disconnect_path_worker:
  assumes "worker st = Some r" "stop (workers st ! r) dev = Some w"
  shows "disconnect_path st dev =
     Some [st,
       st\<lparr>workers := (workers st)[r := w]\<rparr>,
       st\<lparr>workers := (workers st)[r := w], worker := None\<rparr>,
       st\<lparr>workers := (workers st)[r := w], worker := None, btn_connect_text := ''Conectar''\<rparr>,
       st\<lparr>workers := (workers st)[r := w], worker := None, btn_connect_text := ''Conectar'',
          btn_connect_style := []\<rparr>,
       st\<lparr>workers := (workers st)[r := w], worker := None, btn_connect_text := ''Conectar'',
          btn_connect_style := [], combo_ports_enabled := True\<rparr>,
       st\<lparr>workers := (workers st)[r := w], worker := None, btn_connect_text := ''Conectar'',
          btn_connect_style := [], combo_ports_enabled := True, btn_refresh_enabled := True\<rparr>,
       st\<lparr>workers := (workers st)[r := w], worker := None, btn_connect_text := ''Conectar'',
          btn_connect_style := [], combo_ports_enabled := True, btn_refresh_enabled := True,
          log_view := log_view st @ [''Desconectado.''], log_at_end := True\<rparr>]"
  using assms by (simp add: disconnect_path_def log_message_def Let_def)

lemma disconnect_path_no_worker:
  assumes "worker st = None"
  shows "disconnect_path st dev =
     Some [st,
       st\<lparr>btn_connect_text := ''Conectar''\<rparr>,
       st\<lparr>btn_connect_text := ''Conectar'', btn_connect_style := []\<rparr>,
       st\<lparr>btn_connect_text := ''Conectar'', btn_connect_style := [],
          combo_ports_enabled := True\<rparr>,
       st\<lparr>btn_connect_text := ''Conectar'', btn_connect_style := [],
          combo_ports_enabled := True, btn_refresh_enabled := True\<rparr>,
       st\<lparr>btn_connect_text := ''Conectar'', btn_connect_style := [],
          combo_ports_enabled := True, btn_refresh_enabled := True,
          log_view := log_view st @ [''Desconectado.''], log_at_end := True\<rparr>]"
  using assms by (simp add: disconnect_path_def log_message_def Let_def)

lemma disconnect_result:
  assumes "\<not> btn_connect_checked st"
  shows "\<exists>ws. toggle_connection st dev =
       Some (st\<lparr>workers := ws, worker := None, btn_connect_text := ''Conectar'',
          btn_connect_style := [], combo_ports_enabled := True, btn_refresh_enabled := True,
          log_view := log_view st @ [''Desconectado.''], log_at_end := True\<rparr>) \<and>
     (case worker st of
        None \<Rightarrow> ws = workers st
      | Some r \<Rightarrow> \<exists>w. stop (workers st ! r) dev = Some w \<and> ws = (workers st)[r := w])"
proof (cases "worker st")
  case None
  with assms have "toggle_connection st dev =
       Some (st\<lparr>workers := workers st, worker := None, btn_connect_text := ''Conectar'',
          btn_connect_style := [], combo_ports_enabled := True, btn_refresh_enabled := True,
          log_view := log_view st @ [''Desconectado.''], log_at_end := True\<rparr>)"
    by (simp add: toggle_connection_def disconnect_path_no_worker)
  with None show ?thesis by auto
next
  case (Some r)
  obtain w where "stop (workers st ! r) dev = Some w"
    using stop_returns by blast
  with Some assms show ?thesis
    by (simp add: toggle_connection_def disconnect_path_worker)
qed

text \<open>
  Claim C6. When \<open>toggle_connection\<close> runs with the connect button unchecked, it returns,
  whatever the device does, and leaves the port selector and the refresh button enabled
  and \<open>self.worker\<close> empty. The worker it referred to is as \<open>stop\<close> returns it: its flag
  is cleared, its thread has left \<open>run\<close> and its port is not open; and no thread of any
  worker runs. In every state the branch goes through in which a thread still runs, the
  two controls are as they were before: they are enabled only after \<open>stop\<close> has returned.
\<close>

theorem disconnect_stops_reader:
  assumes "\<not> btn_connect_checked st" "worker_valid st" "others_stopped st"
  shows "\<exists>ss st'. disconnect_path st dev = Some ss \<and> st' = last ss \<and>
     toggle_connection st dev = Some st' \<and>
     combo_ports_enabled st' \<and> btn_refresh_enabled st' \<and> worker st' = None \<and>
     \<not> background_activity st' \<and>
     (\<forall>r. worker st = Some r \<longrightarrow>
        stop (workers st ! r) dev = Some (workers st' ! r) \<and>
        \<not> is_running (workers st' ! r) \<and>
        thread (workers st' ! r) \<noteq> Running \<and>
        (thread (workers st ! r) = Running \<longrightarrow>
           thread (workers st' ! r) = Finished \<and> serial_port (workers st' ! r) \<noteq> Some True)) \<and>
     (\<forall>s\<in>set ss. background_activity s \<longrightarrow>
        combo_ports_enabled s = combo_ports_enabled st \<and>
        btn_refresh_enabled s = btn_refresh_enabled st)"
proof (cases "worker st")
  case None
  from assms(3) None have idle: "\<not> list_ex (\<lambda>w. thread w = Running) (workers st)"
    by (rule none_running_without_worker)
  from None assms(1) idle show ?thesis
    by (simp add: toggle_connection_def disconnect_path_no_worker background_activity_def)
next
  case (Some r)
  obtain w where w: "stop (workers st ! r) dev = Some w" "\<not> is_running w"
    "thread w \<noteq> Running"
    "thread (workers st ! r) = Running \<longrightarrow> thread w = Finished \<and> serial_port w \<noteq> Some True"
    using stop_returns[of "workers st ! r" dev] by blast
  from assms(2) Some have r: "r < length (workers st)" by (simp add: worker_valid_iff)
  from assms(3) Some w(3)
  have idle: "\<not> list_ex (\<lambda>w. thread w = Running) ((workers st)[r := w])"
    by (rule none_running_after_stop)
  from Some assms(1) w r idle show ?thesis
    by (simp add: toggle_connection_def disconnect_path_worker[OF Some w(1)]
        background_activity_def)
qed

lemma connect_fields:
  assumes "btn_connect_checked st" "currentText st \<noteq> []"
  shows "toggle_connection st dev =
     Some (st\<lparr>workers := workers st @ [start (SerialWorker (currentText st))],
        worker := Some (length (workers st)),
        btn_connect_text := ''Desconectar'',
        btn_connect_style := ''background-color: #ffcccc; color: red;'',
        combo_ports_enabled := False,
        btn_refresh_enabled := False,
        log_view := log_view st @ [''Conectando a '' @ currentText st @ ''...''],
        log_at_end := True\<rparr>)"
  using assms by (simp add: toggle_connection_def log_message_def Let_def)

lemma no_port_fields:
  assumes "btn_connect_checked st" "currentText st = []"
  shows "toggle_connection st dev =
     Some (st\<lparr>log_view := log_view st @ [''Selecione uma porta serial!''], log_at_end := True,
        btn_connect_checked := False\<rparr>)"
  using assms by (simp add: toggle_connection_def log_message_def Let_def)

lemma currentText_checked [simp]:
  "currentText (st\<lparr>btn_connect_checked := b\<rparr>) = currentText st"
  by (simp add: currentText_def split: option.splits)

lemma currentText_log [simp]: "currentText (log_message st msg) = currentText st"
  by (simp add: currentText_def log_message_def split: option.splits)

lemma ui_inv_MainWindow: "ui_inv (MainWindow ports)"
  by (simp add: ui_inv_def worker_valid_iff others_stopped_def MainWindow_def refresh_ports_def)

lemma ui_inv_log_message: "ui_inv (log_message st msg) = ui_inv st"
  by (simp add: ui_inv_def worker_valid_iff others_stopped_def log_message_def)

lemma ui_inv_process_data: "ui_inv (process_data st line) = ui_inv st"
  by (simp add: ui_inv_def worker_valid_iff others_stopped_def process_data_def
      log_message_def Let_def split: option.splits)

lemma ui_inv_refresh_ports: "ui_inv (refresh_ports st ports) = ui_inv st"
  by (simp add: ui_inv_def worker_valid_iff others_stopped_def refresh_ports_def)

lemma ui_inv_click:
  assumes "ui_inv st"
  shows "\<exists>st'. btn_connect_click st dev = Some st' \<and> ui_inv st'"
proof (cases "btn_connect_checked st")
  case True
  let ?st = "st\<lparr>btn_connect_checked := False\<rparr>"
  from assms have v: "worker_valid ?st" and o: "others_stopped ?st"
    by (simp_all add: ui_inv_def worker_valid_iff others_stopped_def)
  have c: "\<not> btn_connect_checked ?st" by simp
  from disconnect_result[OF c, of dev] obtain ws where
    t: "toggle_connection ?st dev =
       Some (?st\<lparr>workers := ws, worker := None, btn_connect_text := ''Conectar'',
          btn_connect_style := [], combo_ports_enabled := True, btn_refresh_enabled := True,
          log_view := log_view ?st @ [''Desconectado.''], log_at_end := True\<rparr>)"
    and ws: "case worker ?st of None \<Rightarrow> ws = workers ?st
      | Some r \<Rightarrow> \<exists>w. stop (workers ?st ! r) dev = Some w \<and> ws = (workers ?st)[r := w]"
    by blast
  have "\<not> list_ex (\<lambda>w. thread w = Running) ws"
  proof (cases "worker ?st")
    case None
    with ws o show ?thesis using none_running_without_worker[of ?st] by simp
  next
    case (Some r)
    with ws obtain w where "stop (workers ?st ! r) dev = Some w"
      "ws = (workers ?st)[r := w]" by auto
    moreover from this(1) have "thread w \<noteq> Running"
      using stop_returns[of "workers ?st ! r" dev] by auto
    ultimately show ?thesis using none_running_after_stop[OF o Some] by simp
  qed
  then have "\<forall>i<length ws. thread (ws ! i) \<noteq> Running" by (simp add: running_iff)
  with True t show ?thesis
    by (simp add: btn_connect_click_def ui_inv_def worker_valid_iff others_stopped_iff)
next
  case False
  with assms have none: "worker st = None"
    and idle: "\<forall>i<length (workers st). thread (workers st ! i) \<noteq> Running"
    by (auto simp: ui_inv_def others_stopped_iff)
  show ?thesis
  proof (cases "currentText st = []")
    case True
    with False none idle show ?thesis
      by (simp add: btn_connect_click_def no_port_fields ui_inv_def worker_valid_iff
          others_stopped_iff)
  next
    case port: False
    have "\<forall>i<Suc (length (workers st)). i = length (workers st) \<or>
        thread ((workers st @ [start (SerialWorker (currentText st))]) ! i) \<noteq> Running"
      using idle by (auto simp: nth_append)
    with False port show ?thesis
      by (simp add: btn_connect_click_def connect_fields ui_inv_def worker_valid_iff
          others_stopped_iff eq_commute)
  qed
qed

lemma ui_inv_handle_error:
  "ui_inv st \<Longrightarrow> \<exists>st'. handle_error st msg dev = Some st' \<and> ui_inv st'"
  by (simp add: handle_error_def ui_inv_click ui_inv_log_message)

lemma connected_state:
  "btn_connect_click (MainWindow [''COM3'']) dev =
     Some ((MainWindow [''COM3''])
       \<lparr>workers := [start (SerialWorker ''COM3'')], worker := Some 0,
        combo_ports_enabled := False, btn_refresh_enabled := False,
        btn_connect_checked := True, btn_connect_text := ''Desconectar'',
        btn_connect_style := ''background-color: #ffcccc; color: red;'',
        log_view := [''Conectando a COM3...'']\<rparr>)"
  by (simp add: btn_connect_click_def toggle_connection_def MainWindow_def refresh_ports_def
      currentText_def log_message_def Let_def)

theorem disconnect_stops_reader_witness:
  "toggle_connection
     ((MainWindow [''COM3''])
       \<lparr>workers := [start (SerialWorker ''COM3'')], worker := Some 0,
        combo_ports_enabled := False, btn_refresh_enabled := False,
        btn_connect_text := ''Desconectar'', log_view := [''Conectando a COM3...'']\<rparr>)
     \<lparr>on_open = Opened, in_loop = [NoData]\<rparr> =
   Some ((MainWindow [''COM3''])
       \<lparr>workers := [\<lparr>port_name = ''COM3'', baud_rate = 115200, is_running = False,
                      serial_port = Some False, thread = Finished\<rparr>],
        log_view := [''Conectando a COM3...'', ''Desconectado.'']\<rparr>) \<and>
   \<not> background_activity
     ((MainWindow [''COM3''])
       \<lparr>workers := [\<lparr>port_name = ''COM3'', baud_rate = 115200, is_running = False,
                      serial_port = Some False, thread = Finished\<rparr>],
        log_view := [''Conectando a COM3...'', ''Desconectado.'']\<rparr>)"
proof -
  let ?st = "(MainWindow [''COM3''])
       \<lparr>workers := [start (SerialWorker ''COM3'')], worker := Some 0,
        combo_ports_enabled := False, btn_refresh_enabled := False,
        btn_connect_text := ''Desconectar'', log_view := [''Conectando a COM3...'']\<rparr>"
  let ?dev = "\<lparr>on_open = Opened, in_loop = [NoData]\<rparr>"
  have c: "\<not> btn_connect_checked ?st" by (simp add: MainWindow_def refresh_ports_def)
  have v: "worker_valid ?st" by (simp add: worker_valid_def)
  have o: "others_stopped ?st" by (simp add: others_stopped_def)
  have p: "disconnect_path ?st ?dev \<noteq> None \<longrightarrow>
     last (the (disconnect_path ?st ?dev)) =
       (MainWindow [''COM3''])
       \<lparr>workers := [\<lparr>port_name = ''COM3'', baud_rate = 115200, is_running = False,
                      serial_port = Some False, thread = Finished\<rparr>],
        log_view := [''Conectando a COM3...'', ''Desconectado.'']\<rparr>"
    by (simp add: disconnect_path_def stop_value start_def SerialWorker_def log_message_def
        MainWindow_def refresh_ports_def Let_def)
  from disconnect_stops_reader[OF c v o, of ?dev] p show ?thesis
    by auto
qed

text \<open>
  Claim C7. A click that checks the connect button while the port selector has no
  current text starts no worker and changes nothing but the log, which gains the message
  to the user: the button is unchecked again, and every other part of the window,
  the worker objects included, is as before the click, whatever the device does.
\<close>

theorem connect_without_port:
  assumes "\<not> btn_connect_checked st" "currentText st = []"
  shows "btn_connect_click st dev =
       Some (st\<lparr>log_view := log_view st @ [''Selecione uma porta serial!''],
               log_at_end := True\<rparr>) \<and>
     toggle_connection (st\<lparr>btn_connect_checked := True\<rparr>) dev =
       Some (st\<lparr>log_view := log_view st @ [''Selecione uma porta serial!''],
               log_at_end := True\<rparr>) \<and>
     (\<exists>st'. btn_connect_click st dev = Some st' \<and>
        \<not> btn_connect_checked st' \<and> workers st' = workers st \<and> worker st' = worker st)"
proof -
  from assms(1) have same: "st\<lparr>btn_connect_checked := False\<rparr> = st" by simp
  have "toggle_connection (st\<lparr>btn_connect_checked := True\<rparr>) dev =
      Some ((st\<lparr>btn_connect_checked := False\<rparr>)
        \<lparr>log_view := log_view st @ [''Selecione uma porta serial!''], log_at_end := True\<rparr>)"
    using assms(2) by (simp add: no_port_fields)
  with same have t: "toggle_connection (st\<lparr>btn_connect_checked := True\<rparr>) dev =
      Some (st\<lparr>log_view := log_view st @ [''Selecione uma porta serial!''],
              log_at_end := True\<rparr>)"
    by simp
  with assms(1) show ?thesis by (simp add: btn_connect_click_def)
qed

lemma no_port_initially: "currentText (MainWindow []) = []"
  by (simp add: MainWindow_def refresh_ports_def currentText_def)

lemma unchecked_initially: "\<not> btn_connect_checked (MainWindow ports)"
  by (simp add: MainWindow_def refresh_ports_def)

theorem connect_without_port_witness:
  "btn_connect_click (MainWindow []) \<lparr>on_open = Opened, in_loop = []\<rparr> =
     Some ((MainWindow [])\<lparr>log_view := [''Selecione uma porta serial!''], log_at_end := True\<rparr>) \<and>
   workers ((MainWindow [])\<lparr>log_view := [''Selecione uma porta serial!''],
       log_at_end := True\<rparr>) = []"
  using connect_without_port[OF unchecked_initially no_port_initially,
      of "\<lparr>on_open = Opened, in_loop = []\<rparr>"]
  by (simp add: MainWindow_def refresh_ports_def)

text \<open>
  Claim C8. An error event that arrives while the connect button is checked leaves the
  window as a click of the user on that button would, log apart: the log gains the error
  message first and then the entry of the disconnect. The button is unchecked, the worker
  is stopped and let go, and the port selector and the refresh button are enabled.
\<close>

theorem error_event_disconnects:
  assumes "btn_connect_checked st"
  shows "\<exists>s e. btn_connect_click st dev = Some s \<and> handle_error st msg dev = Some e \<and>
     e = s\<lparr>log_view := log_view st @ [''ERRO: '' @ msg, ''Desconectado.'']\<rparr> \<and>
     log_view s = log_view st @ [''Desconectado.''] \<and>
     \<not> btn_connect_checked e \<and>
     btn_connect_text e = ''Conectar'' \<and>
     combo_ports_enabled e \<and>
     btn_refresh_enabled e \<and>
     worker e = None \<and>
     (case worker st of
        None \<Rightarrow> workers e = workers st
      | Some r \<Rightarrow> \<exists>w. stop (workers st ! r) dev = Some w \<and> workers e = (workers st)[r := w])"
proof -
  let ?s0 = "st\<lparr>btn_connect_checked := False\<rparr>"
  let ?e0 = "(log_message st (''ERRO: '' @ msg))\<lparr>btn_connect_checked := False\<rparr>"
  from assms have click: "btn_connect_click st dev = toggle_connection ?s0 dev"
    by (simp add: btn_connect_click_def)
  from assms have err: "handle_error st msg dev = toggle_connection ?e0 dev"
    by (simp add: handle_error_def btn_connect_click_def log_message_def)
  have same: "workers ?e0 = workers st" "worker ?e0 = worker st"
    "workers ?s0 = workers st" "worker ?s0 = worker st"
    by (simp_all add: log_message_def)
  have c: "\<not> btn_connect_checked ?s0" "\<not> btn_connect_checked ?e0" by simp_all
  from disconnect_result[OF c(1), of dev] obtain ws1 where
    s: "toggle_connection ?s0 dev =
       Some (?s0\<lparr>workers := ws1, worker := None, btn_connect_text := ''Conectar'',
          btn_connect_style := [], combo_ports_enabled := True, btn_refresh_enabled := True,
          log_view := log_view ?s0 @ [''Desconectado.''], log_at_end := True\<rparr>)"
    and ws1: "case worker st of None \<Rightarrow> ws1 = workers st
      | Some r \<Rightarrow> \<exists>w. stop (workers st ! r) dev = Some w \<and> ws1 = (workers st)[r := w]"
    unfolding same by blast
  from disconnect_result[OF c(2), of dev] obtain ws2 where
    e: "toggle_connection ?e0 dev =
       Some (?e0\<lparr>workers := ws2, worker := None, btn_connect_text := ''Conectar'',
          btn_connect_style := [], combo_ports_enabled := True, btn_refresh_enabled := True,
          log_view := log_view ?e0 @ [''Desconectado.''], log_at_end := True\<rparr>)"
    and ws2: "case worker st of None \<Rightarrow> ws2 = workers st
      | Some r \<Rightarrow> \<exists>w. stop (workers st ! r) dev = Some w \<and> ws2 = (workers st)[r := w]"
    unfolding same by blast
  from ws1 ws2 have eq: "ws2 = ws1" by (cases "worker st") auto
  let ?S = "?s0\<lparr>workers := ws1, worker := None, btn_connect_text := ''Conectar'',
          btn_connect_style := [], combo_ports_enabled := True, btn_refresh_enabled := True,
          log_view := log_view ?s0 @ [''Desconectado.''], log_at_end := True\<rparr>"
  let ?E = "?e0\<lparr>workers := ws1, worker := None, btn_connect_text := ''Conectar'',
          btn_connect_style := [], combo_ports_enabled := True, btn_refresh_enabled := True,
          log_view := log_view ?e0 @ [''Desconectado.''], log_at_end := True\<rparr>"
  from click s have hs: "btn_connect_click st dev = Some ?S" by (simp only:)
  from err e have he: "handle_error st msg dev = Some ?E" by (simp only: eq)
  have rel: "?E = ?S\<lparr>log_view := log_view st @ [''ERRO: '' @ msg, ''Desconectado.'']\<rparr>"
    by (simp add: log_message_def)
  have fields: "log_view ?S = log_view st @ [''Desconectado.'']"
    "\<not> btn_connect_checked ?E" "btn_connect_text ?E = ''Conectar''"
    "combo_ports_enabled ?E" "btn_refresh_enabled ?E" "worker ?E = None"
    by (simp_all add: log_message_def)
  have wsE: "case worker st of
        None \<Rightarrow> workers ?E = workers st
      | Some r \<Rightarrow> \<exists>w. stop (workers st ! r) dev = Some w \<and> workers ?E = (workers st)[r := w]"
    using ws1 by (simp split: option.splits)
  from hs he rel fields wsE show ?thesis by blast
qed

lemma checked_when_connected:
  "btn_connect_checked ((MainWindow [''COM3''])
       \<lparr>workers := [start (SerialWorker ''COM3'')], worker := Some 0,
        combo_ports_enabled := False, btn_refresh_enabled := False,
        btn_connect_checked := True, btn_connect_text := ''Desconectar'',
        btn_connect_style := ''background-color: #ffcccc; color: red;'',
        log_view := [''Conectando a COM3...'']\<rparr>)"
  by simp

theorem error_event_disconnects_witness:
  "handle_error ((MainWindow [''COM3''])
       \<lparr>workers := [start (SerialWorker ''COM3'')], worker := Some 0,
        combo_ports_enabled := False, btn_refresh_enabled := False,
        btn_connect_checked := True, btn_connect_text := ''Desconectar'',
        btn_connect_style := ''background-color: #ffcccc; color: red;'',
        log_view := [''Conectando a COM3...'']\<rparr>)
     ''device lost'' \<lparr>on_open = Opened, in_loop = [ReadlineRaises ''device lost'' True]\<rparr> =
   Some ((MainWindow [''COM3''])
       \<lparr>workers := [\<lparr>port_name = ''COM3'', baud_rate = 115200, is_running = False,
                      serial_port = Some False, thread = Finished\<rparr>],
        log_view := [''Conectando a COM3...'', ''ERRO: device lost'', ''Desconectado.'']\<rparr>)"
proof -
  let ?st = "(MainWindow [''COM3''])
       \<lparr>workers := [start (SerialWorker ''COM3'')], worker := Some 0,
        combo_ports_enabled := False, btn_refresh_enabled := False,
        btn_connect_checked := True, btn_connect_text := ''Desconectar'',
        btn_connect_style := ''background-color: #ffcccc; color: red;'',
        log_view := [''Conectando a COM3...'']\<rparr>"
  let ?dev = "\<lparr>on_open = Opened, in_loop = [ReadlineRaises ''device lost'' True]\<rparr>"
  have click: "btn_connect_click ?st ?dev =
    Some ((MainWindow [''COM3''])
       \<lparr>workers := [\<lparr>port_name = ''COM3'', baud_rate = 115200, is_running = False,
                      serial_port = Some False, thread = Finished\<rparr>],
        log_view := [''Conectando a COM3...'', ''Desconectado.'']\<rparr>)"
    by (simp add: btn_connect_click_def toggle_connection_def disconnect_path_def stop_value
        start_def SerialWorker_def log_message_def MainWindow_def refresh_ports_def Let_def)
  from error_event_disconnects[OF checked_when_connected, of ?dev "''device lost''"] click
  show ?thesis
    by auto
qed

end
